theory Spec2Isabelle
  imports Complex_Main
begin

section \<open>Python values used by the chart renderer\<close>

text \<open>
  A Python \<open>str\<close> is a sequence of Unicode code points, and \<open>len\<close> counts code points;
  the block glyphs of the chart lie outside ASCII.  Text is therefore a list of code
  points.  \<open>u\<close> embeds an ASCII literal.
\<close>

type_synonym ustr = "nat list"

definition u :: "string \<Rightarrow> ustr" where
  "u s = map of_char s"

text \<open>
  Python's \<open>/\<close> is true division.  It is modelled as exact division of rationals: the
  binary rounding of the floats (a relative error of \<open>2\<^sup>-\<^sup>5\<^sup>3\<close> per operation) is not part
  of the model.  \<open>int(x)\<close> truncates towards zero.
\<close>

definition py_int :: "rat \<Rightarrow> int" where
  "py_int x = (if 0 \<le> x then \<lfloor>x\<rfloor> else \<lceil>x\<rceil>)"

text \<open>\<open>str(n)\<close> for an integer: decimal digits, with a minus sign when negative.\<close>

fun digits :: "nat \<Rightarrow> ustr" where
  "digits n = (if n < 10 then [48 + n] else digits (n div 10) @ [48 + n mod 10])"

definition str_int :: "int \<Rightarrow> ustr" where
  "str_int i = (if i < 0 then 45 # digits (nat (- i)) else digits (nat i))"

definition rjust :: "nat \<Rightarrow> ustr \<Rightarrow> ustr" where
  "rjust w s = replicate (w - length s) 32 @ s"

definition ljust :: "nat \<Rightarrow> ustr \<Rightarrow> ustr" where
  "ljust w s = s @ replicate (w - length s) 32"

text \<open>
  \<open>f"{x:.df}"\<close>: \<open>d\<close> decimals, the last one rounded to nearest with ties to even, on the
  exact value; \<open>zfill\<close> pads the fraction digits with zeros on the left.
\<close>

definition round_half_even :: "rat \<Rightarrow> int" where
  "round_half_even x =
     (let f = \<lfloor>x\<rfloor>; r = x - of_int f
      in if r < 1 / 2 then f else if 1 / 2 < r then f + 1
         else if even f then f else f + 1)"

definition zfill :: "nat \<Rightarrow> ustr \<Rightarrow> ustr" where
  "zfill w s = replicate (w - length s) 48 @ s"

definition format_fixed :: "nat \<Rightarrow> rat \<Rightarrow> ustr" where
  "format_fixed d x =
     (let s = round_half_even (\<bar>x\<bar> * 10 ^ d);
          ip = s div 10 ^ d;
          fp = s mod 10 ^ d
      in (if x < 0 then [45] else []) @ digits (nat ip) @
         (if d = 0 then [] else 46 # zfill d (digits (nat fp))))"

section \<open>formatting.py\<close>

text \<open>
  \<open>format_y_axis_value\<close>, lines 11 to 33.  \<open>f"{n:3d}"\<close> right-justifies \<open>str(n)\<close> to
  width 3 and never cuts it; \<open>f"{x:3.1f}"\<close> does the same with the one-decimal text.
\<close>

definition format_y_axis_value :: "rat \<Rightarrow> ustr" where
  "format_y_axis_value v =
     (if 1000000 \<le> v then
        (let val_m = v / 1000000
         in if 100 \<le> val_m then rjust 3 (str_int (py_int val_m)) @ u '' M''
            else if 10 \<le> val_m then u '' '' @ rjust 2 (str_int (py_int val_m)) @ u '' M''
            else rjust 3 (format_fixed 1 val_m) @ u '' M'')
      else if 1000 \<le> v then
        (let val_k = v / 1000
         in if 100 \<le> val_k then rjust 3 (str_int (py_int val_k)) @ u '' K''
            else if 10 \<le> val_k then u '' '' @ rjust 2 (str_int (py_int val_k)) @ u '' K''
            else rjust 3 (format_fixed 1 val_k) @ u '' K'')
      else rjust 5 (str_int (py_int v)))"

text \<open>\<open>format_total_value\<close>, lines 36 to 67.\<close>

definition format_total_value :: "rat \<Rightarrow> ustr" where
  "format_total_value v =
     (if 1000000000 \<le> v then
        (let val_b = v / 1000000000
         in if 100 \<le> val_b then str_int (py_int val_b) @ u ''B''
            else if 10 \<le> val_b then format_fixed 1 val_b @ u ''B''
            else format_fixed 2 val_b @ u ''B'')
      else if 1000000 \<le> v then
        (let val_m = v / 1000000
         in if 100 \<le> val_m then str_int (py_int val_m) @ u ''M''
            else if 10 \<le> val_m then format_fixed 1 val_m @ u ''M''
            else format_fixed 2 val_m @ u ''M'')
      else if 1000 \<le> v then
        (let val_k = v / 1000
         in if 100 \<le> val_k then str_int (py_int val_k) @ u ''K''
            else if 10 \<le> val_k then format_fixed 1 val_k @ u ''K''
            else format_fixed 2 val_k @ u ''K'')
      else str_int (py_int v))"

section \<open>charts.py: the scale of the Y axis\<close>

text \<open>
  Lines 86 to 116.  The totals are Python integers, so \<open>int(value)\<close> is the identity and
  \<open>//\<close> is the floor division that \<open>div\<close> is on \<open>int\<close>.
\<close>

definition round_to_5_multiple :: "int \<Rightarrow> bool \<Rightarrow> int" where
  "round_to_5_multiple v round_up =
     (let unit = (if 5000000000 \<le> v then 5000000000
                  else if 5000000 \<le> v then 5000000
                  else if 5000 \<le> v then 5000
                  else 5)
      in if round_up then ((v + unit - 1) div unit) * unit
         else (v div unit) * unit)"

definition py_max :: "int list \<Rightarrow> int" where
  "py_max xs = fold max (tl xs) (hd xs)"

definition py_min :: "int list \<Rightarrow> int" where
  "py_min xs = fold min (tl xs) (hd xs)"

definition y_range :: "int list \<Rightarrow> int \<times> int" where
  "y_range totals =
     (let max_value_raw = (if totals \<noteq> [] then py_max totals else 1);
          min_value_raw = (if totals \<noteq> [] then py_min totals else 0);
          min_value = round_to_5_multiple min_value_raw False;
          max_value = round_to_5_multiple max_value_raw True;
          max_value = (if max_value = min_value then min_value + 5000 else max_value)
      in (min_value, max_value))"

section \<open>Timestamps\<close>

text \<open>
  The keys of the series are Python \<open>datetime\<close> values of one time zone.  Their
  arithmetic and comparison are those of the wall clock, with a resolution of one
  microsecond and no leap seconds, so a timestamp is the number of microseconds since
  0001-01-01 00:00:00, the least \<open>datetime\<close>; the greatest is 9999-12-31 23:59:59.999999.
  An operation whose result leaves this range raises \<open>OverflowError\<close>.
\<close>

type_synonym datetime = int

datatype exn = OverflowError | ZeroDivisionError

definition us_per_hour :: int where
  "us_per_hour = 3600000000"

definition us_per_day :: int where
  "us_per_day = 86400000000"

definition datetime_max :: datetime where
  "datetime_max = 3652059 * 86400000000 - 1"

definition hour_of :: "datetime \<Rightarrow> int" where
  "hour_of t = (t div us_per_hour) mod 24"

definition minute_of :: "datetime \<Rightarrow> int" where
  "minute_of t = (t div 60000000) mod 60"

definition weekday_of :: "datetime \<Rightarrow> int" where
  \<comment> \<open>\<open>weekday()\<close>: Monday is 0, and 0001-01-01 is a Monday\<close>
  "weekday_of t = (t div us_per_day) mod 7"

definition replace_hour :: "datetime \<Rightarrow> datetime" where
  \<comment> \<open>\<open>t.replace(minute=0, second=0, microsecond=0)\<close>\<close>
  "replace_hour t = t - t mod us_per_hour"

definition minus_days :: "datetime \<Rightarrow> int \<Rightarrow> exn + datetime" where
  \<comment> \<open>\<open>t - timedelta(days=d)\<close>; \<open>timedelta\<close> itself refuses more than 999999999 days\<close>
  "minus_days t d =
     (if 999999999 < \<bar>d\<bar> then Inl OverflowError
      else let r = t - d * us_per_day
           in if r < 0 \<or> datetime_max < r then Inl OverflowError else Inr r)"

definition plus_hour :: "datetime \<Rightarrow> exn + datetime" where
  \<comment> \<open>\<open>t + timedelta(hours=1)\<close>\<close>
  "plus_hour t =
     (let r = t + us_per_hour
      in if r < 0 \<or> datetime_max < r then Inl OverflowError else Inr r)"

text \<open>
  The calendar date of a day number (1 is 0001-01-01), as the \<open>datetime\<close> module
  computes it in the proleptic Gregorian calendar; it is needed for the texts of
  \<open>strftime\<close> only.
\<close>

definition days_in_month :: "int list" where
  "days_in_month = [31, 28, 31, 30, 31, 30, 31, 31, 30, 31, 30, 31]"

definition days_before_month :: "int list" where
  "days_before_month = [0, 31, 59, 90, 120, 151, 181, 212, 243, 273, 304, 334]"

definition ord2ymd :: "int \<Rightarrow> int \<times> int \<times> int" where
  "ord2ymd ordinal =
     (let n = ordinal - 1;
          n400 = n div 146097; n = n mod 146097;
          n100 = n div 36524; n = n mod 36524;
          n4 = n div 1461; n = n mod 1461;
          n1 = n div 365; n = n mod 365;
          year = n400 * 400 + 1 + n100 * 100 + n4 * 4 + n1
      in if n1 = 4 \<or> n100 = 4 then (year - 1, 12, 31)
         else
           (let leapyear = (n1 = 3 \<and> (n4 \<noteq> 24 \<or> n100 = 3));
                month = (n + 50) div 32;
                preceding = days_before_month ! nat (month - 1)
                            + (if 2 < month \<and> leapyear then 1 else 0)
            in if n < preceding then
                 (let month = month - 1;
                      preceding = preceding - (days_in_month ! nat (month - 1)
                                  + (if month = 2 \<and> leapyear then 1 else 0))
                  in (year, month, n - preceding + 1))
               else (year, month, n - preceding + 1)))"

definition two_digits :: "int \<Rightarrow> ustr" where
  "two_digits n = zfill 2 (str_int n)"

definition strftime_month_day :: "datetime \<Rightarrow> ustr" where
  \<comment> \<open>\<open>t.strftime(' %m / %d')\<close>\<close>
  "strftime_month_day t =
     (case ord2ymd (t div us_per_day + 1) of
        (y, m, d) \<Rightarrow> u '' '' @ two_digits m @ u '' / '' @ two_digits d)"

definition strftime_hour :: "datetime \<Rightarrow> ustr" where
  \<comment> \<open>\<open>t.strftime('%H')\<close>\<close>
  "strftime_hour t = two_digits (hour_of t)"

definition strftime_minute_stamp :: "datetime \<Rightarrow> ustr" where
  \<comment> \<open>\<open>t.strftime('%Y-%m-%d %H:%M')\<close>, for the years of four digits\<close>
  "strftime_minute_stamp t =
     (case ord2ymd (t div us_per_day + 1) of
        (y, m, d) \<Rightarrow>
          zfill 4 (str_int y) @ u ''-'' @ two_digits m @ u ''-'' @ two_digits d @ u '' ''
          @ two_digits (hour_of t) @ u '':'' @ two_digits (minute_of t))"

section \<open>charts.py: the dense hourly axis\<close>

text \<open>
  The series is a Python dictionary from timestamps to dictionaries of counters.  It is
  an association list read by \<open>map_of\<close>; the inner dictionary is a map, read by
  \<open>.get(key, 0)\<close>.
\<close>

type_synonym time_series = "(datetime \<times> (string \<rightharpoonup> int)) list"

text \<open>
  Lines 37 to 41: the loop that appends every hour from the rounded start up to the
  last timestamp.
\<close>

function hourly :: "datetime \<Rightarrow> datetime \<Rightarrow> datetime list \<Rightarrow> exn + datetime list" where
  "hourly current_time last_time sorted_times =
     (if current_time \<le> last_time then
        (case plus_hour current_time of
           Inl e \<Rightarrow> Inl e
         | Inr next_time \<Rightarrow> hourly next_time last_time (sorted_times @ [current_time]))
      else Inr sorted_times)"
  by pat_completeness auto
termination
  by (relation "measure (\<lambda>(c, l, acc). nat (l - c + 1))")
     (auto simp: plus_hour_def us_per_hour_def Let_def split: if_splits)

declare hourly.simps [simp del]

text \<open>\<open>xs[::step]\<close> for a positive step.\<close>

fun slice_step :: "nat \<Rightarrow> 'a list \<Rightarrow> 'a list" where
  "slice_step step [] = []"
| "slice_step step (x # xs) = x # slice_step step (drop (step - 1) xs)"

text \<open>Lines 47 to 55: the note that is printed, and the series that is kept.\<close>

definition resample :: "datetime list \<Rightarrow> ustr list \<times> datetime list" where
  "resample sorted_times =
     (if 500 < length sorted_times then
        (let hours_per_interval = (of_nat (length sorted_times) :: rat) / 500;
             note = u ''Note: Adjusting interval to ~'' @ format_fixed 1 hours_per_interval
                    @ u '' hours to fit in 500 columns.'';
             step = max 1 (int (length sorted_times) div 500)
         in ([note], slice_step (nat step) sorted_times))
      else ([], sorted_times))"

datatype axis = Early ustr | Raises exn | Axis "ustr list" "datetime list"

text \<open>
  Lines 17 to 55.  \<open>Early\<close> is a message printed before \<open>return\<close>; \<open>Axis\<close> carries the
  lines printed so far and \<open>sorted_times\<close> as the rest of the function uses it.
\<close>

definition dense_axis :: "time_series \<Rightarrow> int \<Rightarrow> axis" where
  "dense_axis time_series days_back =
     (if time_series = [] then Early (u ''No time series data available.'')
      else
        (let all_sorted_times = sort (map fst time_series)
         in if all_sorted_times = [] then Early (u ''No data available.'')
            else
              (let last_time = last all_sorted_times
               in case minus_days last_time days_back of
                    Inl e \<Rightarrow> Raises e
                  | Inr start_time \<Rightarrow>
                      (let start_time_rounded = replace_hour start_time
                       in case hourly start_time_rounded last_time [] of
                            Inl e \<Rightarrow> Raises e
                          | Inr sorted_times \<Rightarrow>
                              if length sorted_times < 2
                              then Early (u ''Not enough data points for chart.'')
                              else (case resample sorted_times of
                                      (notes, kept) \<Rightarrow> Axis notes kept)))))"

section \<open>charts.py: breakdown, totals and scaled heights\<close>

text \<open>
  One entry of \<open>breakdown_data\<close> or of \<open>scaled_breakdown\<close>: the values under the keys
  \<open>'input'\<close>, \<open>'output'\<close>, \<open>'cache_creation'\<close> and \<open>'cache_read'\<close>.
\<close>

record breakdown =
  input_val :: int
  output_val :: int
  cache_creation_val :: int
  cache_read_val :: int

definition dict_get :: "(string \<rightharpoonup> int) \<Rightarrow> string \<Rightarrow> int \<Rightarrow> int" where
  "dict_get d k dflt = (case d k of None \<Rightarrow> dflt | Some v \<Rightarrow> v)"

text \<open>Lines 60 to 74, for one timestamp.\<close>

definition breakdown_at :: "time_series \<Rightarrow> datetime \<Rightarrow> breakdown" where
  "breakdown_at time_series time =
     (case map_of time_series time of
        Some d \<Rightarrow> \<lparr>input_val = dict_get d ''input'' 0, output_val = dict_get d ''output'' 0,
                   cache_creation_val = dict_get d ''cache_creation'' 0,
                   cache_read_val = dict_get d ''cache_read'' 0\<rparr>
      | None \<Rightarrow> \<lparr>input_val = 0, output_val = 0, cache_creation_val = 0, cache_read_val = 0\<rparr>)"

text \<open>Lines 76 to 84.  Every chart type other than \<open>'io'\<close> and \<open>'cache'\<close> is \<open>'all'\<close>.\<close>

definition total_of :: "string \<Rightarrow> breakdown \<Rightarrow> int" where
  "total_of chart_type b =
     (if chart_type = ''io'' then input_val b + output_val b
      else if chart_type = ''cache'' then cache_creation_val b + cache_read_val b
      else input_val b + output_val b + cache_creation_val b + cache_read_val b)"

text \<open>Lines 139 to 155, for one data point.\<close>

definition scale_height :: "int \<Rightarrow> int \<Rightarrow> int \<Rightarrow> int \<Rightarrow> int" where
  "scale_height min_value max_value chart_height v =
     py_int (of_int (v - 0) / of_int (max_value - min_value) * of_int (chart_height - 1))"

definition scaled :: "int \<Rightarrow> int \<Rightarrow> int \<Rightarrow> breakdown \<Rightarrow> breakdown" where
  "scaled min_value max_value chart_height b =
     (if max_value = min_value
      then \<lparr>input_val = 0, output_val = 0, cache_creation_val = 0, cache_read_val = 0\<rparr>
      else \<lparr>input_val = scale_height min_value max_value chart_height (input_val b),
            output_val = scale_height min_value max_value chart_height (output_val b),
            cache_creation_val = scale_height min_value max_value chart_height (cache_creation_val b),
            cache_read_val = scale_height min_value max_value chart_height (cache_read_val b)\<rparr>)"

text \<open>
  The same lines with the rounding of the floats made explicit.  \<open>value / (max - min)\<close>
  is the quotient of two integers rounded to a double, and its product with
  \<open>chart_height - 1\<close> is rounded once more; \<open>rnd\<close> stands for that rounding.  With the
  identity for \<open>rnd\<close> this is \<open>scaled\<close>; the rounding to the nearest double is within the
  relative error \<open>2\<^sup>-\<^sup>5\<^sup>3\<close> of its argument, which is what \<open>rounds_within\<close> asks of
  \<open>rnd\<close> on the values that are not negative.
\<close>

definition scale_height_with :: "(rat \<Rightarrow> rat) \<Rightarrow> int \<Rightarrow> int \<Rightarrow> int \<Rightarrow> int \<Rightarrow> int" where
  "scale_height_with rnd min_value max_value chart_height v =
     py_int (rnd (rnd (of_int (v - 0) / of_int (max_value - min_value)) * of_int (chart_height - 1)))"

definition scaled_with :: "(rat \<Rightarrow> rat) \<Rightarrow> int \<Rightarrow> int \<Rightarrow> int \<Rightarrow> breakdown \<Rightarrow> breakdown" where
  "scaled_with rnd min_value max_value chart_height b =
     (if max_value = min_value
      then \<lparr>input_val = 0, output_val = 0, cache_creation_val = 0, cache_read_val = 0\<rparr>
      else \<lparr>input_val = scale_height_with rnd min_value max_value chart_height (input_val b),
            output_val = scale_height_with rnd min_value max_value chart_height (output_val b),
            cache_creation_val =
              scale_height_with rnd min_value max_value chart_height (cache_creation_val b),
            cache_read_val =
              scale_height_with rnd min_value max_value chart_height (cache_read_val b)\<rparr>)"

definition rounds_within :: "(rat \<Rightarrow> rat) \<Rightarrow> bool" where
  "rounds_within rnd = (\<forall>x. 0 \<le> x \<longrightarrow> 0 \<le> rnd x \<and> rnd x \<le> x * (1 + 1 / 2 ^ 53))"

section \<open>charts.py: columns and daily totals\<close>

datatype column = Separator | Data nat

text \<open>
  Lines 160 to 177.  The state of the loop is \<open>chart_columns\<close>, \<open>data_to_col\<close> and
  \<open>col_idx\<close>; \<open>i\<close> runs over \<open>range(num_data_points)\<close>.
\<close>

definition column_step ::
  "datetime list \<Rightarrow> nat \<Rightarrow> column list \<times> (nat \<rightharpoonup> nat) \<times> nat
     \<Rightarrow> column list \<times> (nat \<rightharpoonup> nat) \<times> nat" where
  "column_step sorted_times i st =
     (case st of (chart_columns, data_to_col, col_idx) \<Rightarrow>
        (let time = sorted_times ! i
         in if hour_of time = 0 \<and> minute_of time = 0 \<and> 0 < i
            then (chart_columns @ [Separator] @ [Data i], data_to_col(i \<mapsto> col_idx + 1),
                  col_idx + 1 + 1)
            else (chart_columns @ [Data i], data_to_col(i \<mapsto> col_idx), col_idx + 1)))"

definition build_columns ::
  "datetime list \<Rightarrow> nat \<Rightarrow> column list \<times> (nat \<rightharpoonup> nat) \<times> nat" where
  "build_columns sorted_times num_data_points =
     fold (column_step sorted_times) [0..<num_data_points] ([], Map.empty, 0)"

definition chart_columns_of :: "datetime list \<Rightarrow> column list" where
  "chart_columns_of sorted_times = fst (build_columns sorted_times (length sorted_times))"

text \<open>
  Lines 181 to 205.  A daily total is \<open>(mid_col, total, day_start)\<close>; the state of the
  loop is \<open>daily_totals\<close>, \<open>current_day_start\<close> (\<open>None\<close> or a timestamp),
  \<open>current_day_total\<close> and \<open>current_day_start_col\<close>.
\<close>

type_synonym day_total = "nat \<times> int \<times> datetime"

definition day_step ::
  "datetime list \<Rightarrow> int list \<Rightarrow> nat \<times> column
     \<Rightarrow> day_total list \<times> datetime option \<times> int \<times> nat
     \<Rightarrow> day_total list \<times> datetime option \<times> int \<times> nat" where
  "day_step sorted_times totals p st =
     (case p of (col_idx, col) \<Rightarrow>
      case st of (daily_totals, current_day_start, current_day_total, current_day_start_col) \<Rightarrow>
        (case col of
           Separator \<Rightarrow>
             ((case current_day_start of
                 Some day_start \<Rightarrow>
                   daily_totals @ [((current_day_start_col + col_idx) div 2,
                                    current_day_total, day_start)]
               | None \<Rightarrow> daily_totals),
              None, 0, col_idx + 1)
         | Data data_idx \<Rightarrow>
             (case current_day_start of
                None \<Rightarrow> (daily_totals, Some (sorted_times ! data_idx),
                          current_day_total + totals ! data_idx, col_idx)
              | Some day_start \<Rightarrow> (daily_totals, Some day_start,
                          current_day_total + totals ! data_idx, current_day_start_col))))"

definition daily_totals_of :: "datetime list \<Rightarrow> int list \<Rightarrow> column list \<Rightarrow> day_total list" where
  "daily_totals_of sorted_times totals chart_columns =
     (case fold (day_step sorted_times totals) (enumerate 0 chart_columns) ([], None, 0, 0) of
        (daily_totals, current_day_start, current_day_total, current_day_start_col) \<Rightarrow>
          (case current_day_start of
             Some day_start \<Rightarrow>
               daily_totals @ [((current_day_start_col + length chart_columns) div 2,
                                current_day_total, day_start)]
           | None \<Rightarrow> daily_totals))"

section \<open>charts.py: the header lines\<close>

definition weekday_abbr :: "ustr list" where
  "weekday_abbr = [u ''Mon'', u ''Tue'', u ''Wed'', u ''Thu'', u ''Fri'', u ''Sat'', u ''Sun'']"

definition str_index :: "ustr \<Rightarrow> nat \<Rightarrow> nat" where
  \<comment> \<open>\<open>s.index(c)\<close> for a character that occurs in \<open>s\<close>\<close>
  "str_index s c = length (takeWhile (\<lambda>x. x \<noteq> c) s)"

text \<open>
  Lines 214 to 252, one day.  The state of the loop is \<open>weekday_line\<close>, \<open>date_line\<close> and
  \<open>prev_end\<close>.
\<close>

definition header_step :: "day_total \<Rightarrow> ustr \<times> ustr \<times> int \<Rightarrow> ustr \<times> ustr \<times> int" where
  "header_step d st =
     (case d of (mid_col, total_val, day_start) \<Rightarrow>
      case st of (weekday_line, date_line, prev_end) \<Rightarrow>
        (let total_str = format_total_value (of_int total_val);
             weekday = weekday_abbr ! nat (weekday_of day_start);
             weekday_total = weekday @ u '' : '' @ total_str;
             date_str = strftime_month_day day_start;
             colon_idx = str_index weekday_total 58;
             slash_idx = str_index date_str 47;
             date_str = (if slash_idx < colon_idx
                         then replicate (colon_idx - slash_idx) 32 @ date_str else date_str);
             weekday_total = (if slash_idx < colon_idx then weekday_total
                              else if colon_idx < slash_idx
                              then replicate (slash_idx - colon_idx) 32 @ weekday_total
                              else weekday_total);
             colon_idx = max colon_idx slash_idx;
             max_len = max (length weekday_total) (length date_str);
             weekday_total = ljust max_len weekday_total;
             date_str = ljust max_len date_str;
             start_pos = int mid_col - int colon_idx;
             padding = start_pos - prev_end;
             weekday_line = (if 0 < padding then weekday_line @ replicate (nat padding) 32
                             else weekday_line);
             date_line = (if 0 < padding then date_line @ replicate (nat padding) 32
                          else date_line)
         in (weekday_line @ weekday_total, date_line @ date_str, start_pos + int max_len)))"

definition header_lines :: "day_total list \<Rightarrow> ustr list" where
  "header_lines daily_totals =
     (case fold header_step daily_totals (replicate 7 32, replicate 7 32, 0) of
        (weekday_line, date_line, prev_end) \<Rightarrow> [weekday_line, date_line])"

section \<open>charts.py: the grid\<close>

text \<open>
  The glyphs: U+2588 is 9608, U+2593 is 9619, U+2592 is 9618, U+2591 is 9617; the
  escape character is 27.
\<close>

definition colored :: "string \<Rightarrow> ustr \<Rightarrow> ustr" where
  \<comment> \<open>\<open>"\033[38;5;<code>m" + glyphs + "\033[0m"\<close>\<close>
  "colored code glyphs = 27 # u ''[38;5;'' @ u code @ u ''m'' @ glyphs @ 27 # u ''[0m''"

text \<open>Lines 270 to 315: what one data column adds to the line of one row.\<close>

definition cell :: "string \<Rightarrow> int \<Rightarrow> breakdown \<Rightarrow> ustr" where
  "cell chart_type row bd =
     (let input_height = input_val bd;
          output_height = output_val bd;
          cache_creation_height = cache_creation_val bd;
          cache_read_height = cache_read_val bd;
          cumulative_input = input_height;
          cumulative_output = cumulative_input + output_height;
          cumulative_cache_creation = cumulative_output + cache_creation_height;
          cumulative_cache_read = cumulative_cache_creation + cache_read_height
      in if chart_type = ''io'' then
           (if row < cumulative_input then colored ''51'' [9608]
            else if row < cumulative_output then colored ''46'' [9619]
            else u '' '')
         else if chart_type = ''cache'' then
           (let cache_only_cumulative_creation = cache_creation_height;
                cache_only_cumulative_read = cache_only_cumulative_creation + cache_read_height
            in if row < cache_only_cumulative_creation then colored ''214'' [9618]
               else if row < cache_only_cumulative_read then [9608]
               else u '' '')
         else
           (if row < cumulative_input then colored ''51'' [9608]
            else if row < cumulative_output then colored ''46'' [9619]
            else if row < cumulative_cache_creation then colored ''214'' [9618]
            else if row < cumulative_cache_read then [9608, 9617]
            else u '' ''))"

definition chart_line :: "string \<Rightarrow> breakdown list \<Rightarrow> column list \<Rightarrow> int \<Rightarrow> ustr" where
  "chart_line chart_type scaled_breakdown chart_columns row =
     concat (map (\<lambda>col. case col of
                           Separator \<Rightarrow> u ''|''
                         | Data data_idx \<Rightarrow> cell chart_type row (scaled_breakdown ! data_idx))
                 chart_columns)"

text \<open>
  Lines 258 to 317, over the rows still to draw.  The label divides by
  \<open>chart_height - 1\<close>, which raises \<open>ZeroDivisionError\<close> when that is 0.  The result is
  the lines printed and the exception that ended the loop, if one did.
\<close>

primrec draw_rows ::
  "string \<Rightarrow> int \<Rightarrow> int \<Rightarrow> int \<Rightarrow> breakdown list \<Rightarrow> column list \<Rightarrow> int list
     \<Rightarrow> ustr list \<times> exn option" where
  "draw_rows chart_type min_value max_value chart_height scaled_breakdown chart_columns [] =
     ([], None)"
| "draw_rows chart_type min_value max_value chart_height scaled_breakdown chart_columns
     (row # rows) =
     (if chart_height - 1 = 0 then ([], Some ZeroDivisionError)
      else
        (let y_val = (of_int min_value :: rat)
                     + of_int ((max_value - min_value) * row) / of_int (chart_height - 1);
             y_label = format_y_axis_value y_val @ u '' |'';
             line = chart_line chart_type scaled_breakdown chart_columns row
         in case draw_rows chart_type min_value max_value chart_height scaled_breakdown
                   chart_columns rows of
              (printed, raised) \<Rightarrow> ((y_label @ line) # printed, raised)))"

section \<open>charts.py: the X axis and its labels\<close>

text \<open>Lines 321 to 327; U+2534 is 9524, U+2500 is 9472, U+2514 is 9492.\<close>

definition x_axis_line :: "column list \<Rightarrow> ustr" where
  "x_axis_line chart_columns =
     concat (map (\<lambda>col. case col of Separator \<Rightarrow> [9524] | Data i \<Rightarrow> [9472]) chart_columns)"

text \<open>
  Lines 335 to 344: the labels and their positions, as a list of pairs; every index is
  a key of \<open>data_to_col\<close>, and a missing key adds nothing.
\<close>

definition hour_labels :: "datetime list \<Rightarrow> (nat \<rightharpoonup> nat) \<Rightarrow> (ustr \<times> nat) list" where
  "hour_labels sorted_times data_to_col =
     concat (map (\<lambda>(i, time).
                    if hour_of time \<in> {6, 12, 18}
                    then (case data_to_col i of
                            Some pos \<Rightarrow> [(strftime_hour time, pos)]
                          | None \<Rightarrow> [])
                    else [])
                 (enumerate 0 sorted_times))"

text \<open>Lines 347 to 368.\<close>

definition label_char :: "(ustr \<times> nat) list \<Rightarrow> nat \<Rightarrow> nat \<times> column \<Rightarrow> nat" where
  "label_char labels char_idx p =
     (case p of (col_idx, col) \<Rightarrow>
        (case col of
           Separator \<Rightarrow> 124
         | Data i \<Rightarrow>
             (case find (\<lambda>(label, pos). col_idx = pos \<and> char_idx < length label) labels of
                Some (label, pos) \<Rightarrow> label ! char_idx
              | None \<Rightarrow> 32)))"

definition label_lines :: "(ustr \<times> nat) list \<Rightarrow> column list \<Rightarrow> ustr list" where
  "label_lines labels chart_columns =
     (let max_label_len = (if labels \<noteq> [] then Max (set (map (\<lambda>(label, pos). length label) labels))
                           else 0)
      in map (\<lambda>char_idx. replicate 7 32
                          @ map (label_char labels char_idx) (enumerate 0 chart_columns))
             [0..<max_label_len])"

section \<open>charts.py: \<open>print_stacked_bar_chart\<close>\<close>

text \<open>
  The outcome of a call: a message printed before an early \<open>return\<close>, the lines of a
  complete render (one per call of \<open>print\<close>; code point 10 is a line feed inside such a
  text), or an exception together with the lines printed before it.
\<close>

datatype outcome = Returned_early ustr | Rendered "ustr list" | Raised exn "ustr list"

definition title_lines :: "string \<Rightarrow> bool \<Rightarrow> ustr list" where
  "title_lines chart_type show_x_axis =
     (if chart_type = ''io'' then
        [10 # u ''Input + Output Tokens Over Time (1-hour intervals, Local Time)'',
         u ''Y-axis: Input and Output token consumption'']
      else if chart_type = ''cache'' then
        [10 # u ''Cache Tokens Over Time (1-hour intervals, Local Time)'',
         u ''Y-axis: Cache Output and Cache Input token consumption'']
      else
        [10 # u ''Token Usage Breakdown Over Time (1-hour intervals, Local Time)'',
         u ''Y-axis: Token consumption (all token types)''])
     @ (if show_x_axis
        then [u ''X-axis: Time (each day has 24 data points, ticks at 6-hour intervals)'' @ [10]]
        else [[]])"

definition summary_lines :: "datetime list \<Rightarrow> nat \<Rightarrow> ustr list" where
  "summary_lines sorted_times chart_width =
     [10 # replicate (chart_width + 10) 61,
      u ''Total time span: '' @ strftime_minute_stamp (hd sorted_times) @ u '' to ''
        @ strftime_minute_stamp (last sorted_times) @ u '' | Data points: ''
        @ str_int (int (length sorted_times)),
      u ''Legend: '' @ colored ''51'' [9608] @ u '' Input  '' @ colored ''46'' [9619]
        @ u '' Output  '' @ [9608] @ u '' Cache Input  '' @ colored ''214'' [9618]
        @ u '' Cache Output'']"

definition print_stacked_bar_chart ::
  "time_series \<Rightarrow> int \<Rightarrow> int \<Rightarrow> string \<Rightarrow> bool \<Rightarrow> outcome" where
  "print_stacked_bar_chart time_series height days_back chart_type show_x_axis =
     (case dense_axis time_series days_back of
        Early message \<Rightarrow> Returned_early message
      | Raises e \<Rightarrow> Raised e []
      | Axis notes sorted_times \<Rightarrow>
          (let breakdown_data = map (breakdown_at time_series) sorted_times;
               totals = map (total_of chart_type) breakdown_data;
               (min_value, max_value) = y_range totals;
               num_data_points = length totals;
               chart_height = height;
               scaled_breakdown = map (scaled min_value max_value chart_height) breakdown_data;
               (chart_columns, data_to_col, col_idx) = build_columns sorted_times num_data_points;
               chart_width = length chart_columns;
               daily_totals = daily_totals_of sorted_times totals chart_columns;
               before_rows = notes @ title_lines chart_type show_x_axis
                             @ [replicate (chart_width + 10) 61]
                             @ header_lines daily_totals;
               (rows, raised) = draw_rows chart_type min_value max_value chart_height
                                  scaled_breakdown chart_columns (rev [0..chart_height - 1])
           in case raised of
                Some e \<Rightarrow> Raised e (before_rows @ rows)
              | None \<Rightarrow>
                  Rendered
                    (before_rows @ rows
                     @ [u ''      '' @ [9492] @ x_axis_line chart_columns]
                     @ (if show_x_axis
                        then [[]] @ label_lines (hour_labels sorted_times data_to_col) chart_columns
                             @ summary_lines sorted_times chart_width
                        else []))))"

section \<open>Notions of the specification\<close>

text \<open>
  The visible characters of a text: what is left when every colour escape, from the
  escape character to the next \<open>m\<close>, is taken out.
\<close>

fun strip_from :: "bool \<Rightarrow> ustr \<Rightarrow> ustr" where
  "strip_from inside [] = []"
| "strip_from inside (c # cs) =
     (if inside then strip_from (c \<noteq> 109) cs
      else if c = 27 then strip_from True cs
      else c # strip_from False cs)"

definition strip_ansi :: "ustr \<Rightarrow> ustr" where
  "strip_ansi s = strip_from False s"

text \<open>
  Names for what lines 29 to 55 compute on the way: the latest key, the start of the
  window, the number of hourly points from the start to the latest key, and the step of
  the resampling.
\<close>

definition last_time_of :: "time_series \<Rightarrow> datetime" where
  "last_time_of time_series = last (sort (map fst time_series))"

definition window_start :: "time_series \<Rightarrow> int \<Rightarrow> datetime" where
  "window_start time_series days_back =
     replace_hour (last_time_of time_series - days_back * us_per_day)"

definition hourly_points :: "time_series \<Rightarrow> int \<Rightarrow> nat" where
  "hourly_points time_series days_back =
     nat ((last_time_of time_series - window_start time_series days_back) div us_per_hour + 1)"

definition stride :: "nat \<Rightarrow> nat" where
  "stride n = (if 500 < n then nat (max 1 (int n div 500)) else 1)"

definition axis_times :: "axis \<Rightarrow> datetime list" where
  "axis_times a = (case a of Axis notes kept \<Rightarrow> kept | Early message \<Rightarrow> [] | Raises e \<Rightarrow> [])"

text \<open>The calendar day of a timestamp, counted from 0001-01-01.\<close>

definition day_of :: "datetime \<Rightarrow> int" where
  "day_of t = t div us_per_day"

text \<open>
  The hourly axis of lines 37 to 41 when nothing overflows, and the number of points
  that remain of it after the resampling of lines 47 to 55.
\<close>

definition hourly_axis :: "time_series \<Rightarrow> int \<Rightarrow> datetime list" where
  "hourly_axis time_series days_back =
     map (\<lambda>i. window_start time_series days_back + int i * us_per_hour)
         [0..<hourly_points time_series days_back]"


text \<open>The number of separator columns of a chart.\<close>

definition separators :: "column list \<Rightarrow> nat" where
  "separators chart_columns = length (filter (\<lambda>c. c = Separator) chart_columns)"

text \<open>The exception that ended a call, if one did.\<close>

definition raised_exn :: "outcome \<Rightarrow> exn option" where
  "raised_exn r = (case r of Raised e printed \<Rightarrow> Some e | Rendered printed \<Rightarrow> None
                   | Returned_early message \<Rightarrow> None)"

text \<open>
  The bands of a stacked column.  The categories of a chart type are stacked from row 0
  in a fixed order, and the band of a category is the half-open interval of rows between
  the heights summed before it and the sum that includes it.  \<open>bands_at\<close> lists the
  categories whose band holds a row; \<open>glyph\<close> is what the renderer draws for a category.
\<close>

datatype category = Input | Output | Cache_creation | Cache_read

definition active :: "string \<Rightarrow> category list" where
  "active chart_type =
     (if chart_type = ''io'' then [Input, Output]
      else if chart_type = ''cache'' then [Cache_creation, Cache_read]
      else [Input, Output, Cache_creation, Cache_read])"

definition height_of :: "breakdown \<Rightarrow> category \<Rightarrow> int" where
  "height_of bd c =
     (case c of Input \<Rightarrow> input_val bd | Output \<Rightarrow> output_val bd
      | Cache_creation \<Rightarrow> cache_creation_val bd | Cache_read \<Rightarrow> cache_read_val bd)"

fun stack :: "int \<Rightarrow> (category \<times> int) list \<Rightarrow> (category \<times> int \<times> int) list" where
  "stack base [] = []"
| "stack base ((c, h) # rest) = (c, base, base + h) # stack (base + h) rest"

definition bands :: "string \<Rightarrow> breakdown \<Rightarrow> (category \<times> int \<times> int) list" where
  "bands chart_type bd = stack 0 (map (\<lambda>c. (c, height_of bd c)) (active chart_type))"

definition bands_at :: "string \<Rightarrow> breakdown \<Rightarrow> int \<Rightarrow> category list" where
  "bands_at chart_type bd row =
     map fst (filter (\<lambda>(c, lo, hi). lo \<le> row \<and> row < hi) (bands chart_type bd))"

definition glyph :: "string \<Rightarrow> category \<Rightarrow> ustr" where
  "glyph chart_type c =
     (case c of Input \<Rightarrow> colored ''51'' [9608] | Output \<Rightarrow> colored ''46'' [9619]
      | Cache_creation \<Rightarrow> colored ''214'' [9618]
      | Cache_read \<Rightarrow> (if chart_type = ''cache'' then [9608] else [9608, 9617]))"

section \<open>Example inputs\<close>

text \<open>
  A series with the single bucket 2025-01-01 00:00 (day 739251 after 0001-01-01), first
  with 5000 cache-read tokens, then with 100 input tokens.
\<close>

definition cache_read_series :: time_series where
  "cache_read_series = [(63871286400000000, [''cache_read'' \<mapsto> 5000])]"

definition input_series :: time_series where
  "input_series = [(63871286400000000, [''input'' \<mapsto> 100])]"

section \<open>Properties\<close>

lemma fold_max_ge: "(a::int) \<le> fold max xs a \<and> (\<forall>x\<in>set xs. x \<le> fold max xs a)"
proof (induction xs arbitrary: a)
  case Nil
  show ?case by simp
next
  case (Cons y ys)
  have "max y a \<le> fold max ys (max y a)" and "\<forall>x\<in>set ys. x \<le> fold max ys (max y a)"
    using Cons.IH [of "max y a"] by blast+
  then show ?case by auto
qed

lemma fold_min_le: "fold min xs (a::int) \<le> a \<and> (\<forall>x\<in>set xs. fold min xs a \<le> x)"
proof (induction xs arbitrary: a)
  case Nil
  show ?case by simp
next
  case (Cons y ys)
  have "fold min ys (min y a) \<le> min y a" and "\<forall>x\<in>set ys. fold min ys (min y a) \<le> x"
    using Cons.IH [of "min y a"] by blast+
  then show ?case by auto
qed

lemma py_max_ge: "x \<in> set xs \<Longrightarrow> x \<le> py_max xs"
  using fold_max_ge [of "hd xs" "tl xs"]
  by (cases xs) (auto simp: py_max_def)

lemma py_min_le: "x \<in> set xs \<Longrightarrow> py_min xs \<le> x"
  using fold_min_le [of "tl xs" "hd xs"]
  by (cases xs) (auto simp: py_min_def)

lemma round_down_le: "round_to_5_multiple v False \<le> v"
proof -
  have "(v div k) * k \<le> v" if "0 < k" for k :: int
    using that by (metis mult.commute div_mult_mod_eq add_increasing2 order_refl pos_mod_sign)
  then show ?thesis by (simp add: round_to_5_multiple_def Let_def)
qed

lemma round_up_ge: "v \<le> round_to_5_multiple v True"
proof -
  have "v \<le> ((v + k - 1) div k) * k" if k: "0 < k" for k :: int
  proof -
    have "(v + k - 1) div k * k = (v + k - 1) - (v + k - 1) mod k"
      by (simp add: algebra_simps minus_mod_eq_mult_div [symmetric])
    moreover have "(v + k - 1) mod k \<le> k - 1"
      using k pos_mod_bound [of k "v + k - 1"] by linarith
    ultimately show ?thesis by linarith
  qed
  then show ?thesis by (simp add: round_to_5_multiple_def Let_def)
qed

lemma y_range_lt: "fst (y_range totals) < snd (y_range totals)"
proof (cases "totals = []")
  case True
  then show ?thesis by (simp add: y_range_def round_to_5_multiple_def Let_def)
next
  case False
  then have "hd totals \<in> set totals" by simp
  then have "py_min totals \<le> py_max totals"
    using py_min_le py_max_ge by (meson order_trans)
  then have "round_to_5_multiple (py_min totals) False
               \<le> round_to_5_multiple (py_max totals) True"
    using round_down_le [of "py_min totals"] round_up_ge [of "py_max totals"] by linarith
  then show ?thesis using False by (simp add: y_range_def Let_def)
qed

text \<open>
  C7.  For every sequence of totals, the empty one included, the scale range computed by
  lines 86 to 116 has its maximum strictly above its minimum: the minimum is rounded
  down, the maximum is rounded up, and 5000 is added to the maximum when the two meet.
\<close>

theorem y_range_max_above_min: "fst (y_range totals) < snd (y_range totals)"
proof (cases "totals = []")
  case True
  then show ?thesis by (simp add: y_range_def round_to_5_multiple_def Let_def)
next
  case False
  then have "hd totals \<in> set totals" by simp
  then have "py_min totals \<le> py_max totals"
    using py_min_le py_max_ge by (meson order_trans)
  then have "round_to_5_multiple (py_min totals) False
               \<le> round_to_5_multiple (py_max totals) True"
    using round_down_le [of "py_min totals"] round_up_ge [of "py_max totals"] by linarith
  then show ?thesis using False by (simp add: y_range_def Let_def)
qed

lemma hourly_eq:
  "0 \<le> c \<Longrightarrow> l + us_per_hour \<le> datetime_max \<Longrightarrow>
   hourly c l acc = Inr (acc @ map (\<lambda>i. c + int i * us_per_hour) [0..<nat ((l - c) div us_per_hour + 1)])"
proof (induction c l acc rule: hourly.induct)
  case (1 c l acc)
  show ?case
  proof (cases "c \<le> l")
    case False
    then have "(l - c) div us_per_hour < 0"
      by (simp add: us_per_hour_def div_neg_pos_less0)
    then have "nat ((l - c) div us_per_hour + 1) = 0" by simp
    with False show ?thesis by (simp del: hourly.simps add: hourly.simps [of c l acc])
  next
    case True
    let ?H = us_per_hour
    have H: "0 < ?H" by (simp add: us_per_hour_def)
    have ph: "plus_hour c = Inr (c + ?H)"
      using True 1(2,3) H by (simp add: plus_hour_def Let_def)
    have IH: "hourly (c + ?H) l (acc @ [c]) =
        Inr ((acc @ [c]) @ map (\<lambda>i. (c + ?H) + int i * ?H) [0..<nat ((l - (c + ?H)) div ?H + 1)])"
      using 1(1) [OF True ph] 1(2,3) H by simp
    have d: "(l - (c + ?H)) div ?H + 1 = (l - c) div ?H"
    proof -
      have "((l - c - ?H) + ?H) div ?H = (l - c - ?H) div ?H + 1"
        using H by (subst div_add_self2) auto
      then show ?thesis by (simp add: algebra_simps)
    qed
    have nn: "0 \<le> (l - c) div ?H" using True H by (simp add: pos_imp_zdiv_nonneg_iff)
    define k where "k = nat ((l - c) div ?H)"
    have k1: "nat ((l - c) div ?H + 1) = Suc k" using nn by (simp add: k_def nat_add_distrib)
    have "map (\<lambda>i. c + int i * ?H) [0..<Suc k] = c # map (\<lambda>i. (c + ?H) + int i * ?H) [0..<k]"
      by (simp add: upt_conv_Cons map_Suc_upt [symmetric] algebra_simps del: upt_Suc)
    then show ?thesis
      using True ph IH d k1 k_def by (simp del: hourly.simps upt_Suc add: hourly.simps [of c l acc])
  qed
qed

lemma length_slice_step:
  "0 < s \<Longrightarrow> length (slice_step s xs) = (length xs + s - 1) div s"
proof (induction s xs rule: slice_step.induct)
  case (1 s) then show ?case by simp
next
  case (2 s x xs)
  show ?case
  proof (cases "s - 1 \<le> length xs")
    case True
    then have "length (drop (s - 1) xs) + s - 1 = length xs" using 2(2) by simp
    then have "length (slice_step s (x # xs)) = Suc (length xs div s)" using 2 by simp
    moreover have "(length (x # xs) + s - 1) div s = Suc (length xs div s)"
      using 2(2) by simp
    ultimately show ?thesis by simp
  next
    case False
    then have "drop (s - 1) xs = []" by simp
    moreover have "(length (x # xs) + s - 1) div s = 1" using False 2(2)
      by (simp add: div_eq_dividend_iff) 
    ultimately show ?thesis by simp
  qed
qed

lemma nth_slice_step:
  "0 < s \<Longrightarrow> j < length (slice_step s xs) \<Longrightarrow> slice_step s xs ! j = xs ! (j * s)"
proof (induction s xs arbitrary: j rule: slice_step.induct)
  case (1 s) then show ?case by simp
next
  case (2 s x xs)
  show ?case
  proof (cases j)
    case 0 then show ?thesis by simp
  next
    case (Suc i)
    then have i: "i < length (slice_step s (drop (s - 1) xs))" using 2(3) by simp
    then have ne: "drop (s - 1) xs \<noteq> []" by auto
    have "i * s < length (drop (s - 1) xs)"
    proof -
      have "length (slice_step s (drop (s - 1) xs)) = (length (drop (s - 1) xs) + s - 1) div s"
        by (rule length_slice_step [OF 2(2)])
      with i have "i < (length (drop (s - 1) xs) + s - 1) div s" by (simp only:)
      then have "Suc i * s \<le> length (drop (s - 1) xs) + s - 1"
        using 2(2) by (metis Suc_leI div_le_mono div_mult_self_is_m less_eq_div_iff_mult_less_eq)
      then show ?thesis using 2(2) by (simp add: algebra_simps) 
    qed
    then have "drop (s - 1) xs ! (i * s) = xs ! (s - 1 + i * s)" by simp
    moreover have "slice_step s (drop (s - 1) xs) ! i = drop (s - 1) xs ! (i * s)"
      using 2(1) [OF 2(2) i] .
    moreover have "Suc i * s = Suc (s - 1 + i * s)" using 2(2) by simp
    ultimately show ?thesis using Suc by simp
  qed
qed

lemma hourly_Inr:
  "hourly c l acc = Inr xs \<Longrightarrow>
   xs = acc @ map (\<lambda>i. c + int i * us_per_hour) [0..<nat ((l - c) div us_per_hour + 1)]"
proof (induction c l acc rule: hourly.induct)
  case (1 c l acc)
  show ?case
  proof (cases "c \<le> l")
    case False
    then have "(l - c) div us_per_hour < 0"
      by (simp add: us_per_hour_def div_neg_pos_less0)
    then have "nat ((l - c) div us_per_hour + 1) = 0" by simp
    with False 1(2) show ?thesis by (simp del: hourly.simps add: hourly.simps [of c l acc])
  next
    case True
    let ?H = us_per_hour
    have H: "0 < ?H" by (simp add: us_per_hour_def)
    from True 1(2) obtain nxt where ph: "plus_hour c = Inr nxt"
      and rec: "hourly nxt l (acc @ [c]) = Inr xs"
      by (simp del: hourly.simps add: hourly.simps [of c l acc] split: sum.splits)
    have nxt: "nxt = c + ?H" using ph by (simp add: plus_hour_def Let_def split: if_splits)
    have IH: "xs = (acc @ [c]) @ map (\<lambda>i. (c + ?H) + int i * ?H) [0..<nat ((l - (c + ?H)) div ?H + 1)]"
      using 1(1) [OF True ph rec] nxt by simp
    have d: "(l - (c + ?H)) div ?H + 1 = (l - c) div ?H"
    proof -
      have "((l - c - ?H) + ?H) div ?H = (l - c - ?H) div ?H + 1"
        using H by (subst div_add_self2) auto
      then show ?thesis by (simp add: algebra_simps)
    qed
    have nn: "0 \<le> (l - c) div ?H" using True H by (simp add: pos_imp_zdiv_nonneg_iff)
    define k where "k = nat ((l - c) div ?H)"
    have k1: "nat ((l - c) div ?H + 1) = Suc k" using nn by (simp add: k_def nat_add_distrib)
    have "map (\<lambda>i. c + int i * ?H) [0..<Suc k] = c # map (\<lambda>i. (c + ?H) + int i * ?H) [0..<k]"
      by (simp add: upt_conv_Cons map_Suc_upt [symmetric] algebra_simps del: upt_Suc)
    then show ?thesis
      using IH d k1 k_def by (simp del: hourly.simps upt_Suc)
  qed
qed

lemma slice_step_map:
  assumes "0 < s"
  shows "slice_step s (map f [0..<n]) = map (\<lambda>j. f (j * s)) [0..<(n + s - 1) div s]"
proof (rule nth_equalityI)
  show len: "length (slice_step s (map f [0..<n])) = length (map (\<lambda>j. f (j * s)) [0..<(n + s - 1) div s])"
    using assms by (simp add: length_slice_step)
  fix j assume j: "j < length (slice_step s (map f [0..<n]))"
  then have jl: "j < (n + s - 1) div s" using len by simp
  then have "Suc j * s \<le> n + s - 1"
    using assms by (metis Suc_leI div_le_mono div_mult_self_is_m less_eq_div_iff_mult_less_eq)
  then have js: "j * s < n" using assms by (simp add: algebra_simps)
  have "slice_step s (map f [0..<n]) ! j = map f [0..<n] ! (j * s)"
    using nth_slice_step [OF assms j] .
  also have "\<dots> = f (j * s)" using js by simp
  finally show "slice_step s (map f [0..<n]) ! j = map (\<lambda>j. f (j * s)) [0..<(n + s - 1) div s] ! j"
    using jl by simp
qed

lemma stride_pos: "0 < stride n"
proof -
  have "(1::int) \<le> max 1 (int n div 500)" by (rule max.cobounded1)
  then have "0 < nat (max 1 (int n div 500))" by linarith
  then show ?thesis by (simp only: stride_def split: if_split) simp
qed

lemma resample_map:
  "snd (resample (map f [0..<n])) = map (\<lambda>j. f (j * stride n)) [0..<(n + stride n - 1) div stride n]"
proof (cases "500 < n")
  case True
  then show ?thesis
    using slice_step_map [OF stride_pos, where f = f and n = n and n1 = n]
    by (simp add: resample_def stride_def Let_def)
next
  case False
  then show ?thesis by (simp add: resample_def stride_def map_nth)
qed

lemma dense_axis_Axis:
  assumes "dense_axis ts d = Axis notes kept"
  shows "ts \<noteq> []"
    and "2 \<le> hourly_points ts d"
    and "0 \<le> window_start ts d"
    and "kept = map (\<lambda>j. window_start ts d + int (j * stride (hourly_points ts d)) * us_per_hour)
                    [0..<(hourly_points ts d + stride (hourly_points ts d) - 1)
                          div stride (hourly_points ts d)]"
proof -
  let ?n = "hourly_points ts d"
  show ne: "ts \<noteq> []" using assms by (auto simp: dense_axis_def)
  then have ne': "sort (map fst ts) \<noteq> []" by (metis Nil_is_map_conv length_0_conv length_sort)
  from assms ne ne' obtain r xs where md: "minus_days (last_time_of ts) d = Inr r"
    and h: "hourly (replace_hour r) (last_time_of ts) [] = Inr xs"
    and len: "\<not> length xs < 2"
    and res: "resample xs = (notes, kept)"
    by (auto simp: dense_axis_def Let_def last_time_of_def split: sum.splits if_splits prod.splits)
  have r: "r = last_time_of ts - d * us_per_day" and r0: "0 \<le> r"
    using md by (auto simp: minus_days_def Let_def split: if_splits)
  have st: "replace_hour r = window_start ts d" by (simp add: window_start_def r)
  have xs: "xs = map (\<lambda>i. window_start ts d + int i * us_per_hour) [0..<?n]"
    using hourly_Inr [OF h] by (simp add: st hourly_points_def)
  show "2 \<le> ?n" using len xs by simp
  have "r mod us_per_hour \<le> r" using r0 by (simp add: us_per_hour_def zmod_le_nonneg_dividend)
  then show "0 \<le> window_start ts d" using st by (simp add: replace_hour_def)
  have "kept = snd (resample xs)" using res by simp
  then show "kept = map (\<lambda>j. window_start ts d + int (j * stride ?n) * us_per_hour)
                    [0..<(?n + stride ?n - 1) div stride ?n]"
    using resample_map [of "\<lambda>i. window_start ts d + int i * us_per_hour" ?n] xs by simp
qed

lemma build_columns_Suc:
  "build_columns ts (Suc n) = column_step ts n (build_columns ts n)"
  by (simp add: build_columns_def)

lemma fst_column_step:
  "fst (column_step ts i st) =
     fst st @ (if hour_of (ts ! i) = 0 \<and> minute_of (ts ! i) = 0 \<and> 0 < i
               then [Separator, Data i] else [Data i])"
  by (cases st) (simp add: column_step_def Let_def)

lemma fst_build_columns:
  "fst (build_columns ts n) =
     concat (map (\<lambda>i. if hour_of (ts ! i) = 0 \<and> minute_of (ts ! i) = 0 \<and> 0 < i
                        then [Separator, Data i] else [Data i]) [0..<n])"
proof (induction n)
  case 0
  show ?case by (simp add: build_columns_def)
next
  case (Suc n)
  show ?case
    by (simp only: build_columns_Suc fst_column_step Suc.IH) simp
qed

lemma chart_columns_eq:
  "chart_columns_of ts =
     concat (map (\<lambda>i. if hour_of (ts ! i) = 0 \<and> minute_of (ts ! i) = 0 \<and> 0 < i
                        then [Separator, Data i] else [Data i]) [0..<length ts])"
  by (simp add: chart_columns_of_def fst_build_columns)

lemma chart_columns_snoc:
  "chart_columns_of (ts @ [t]) =
     chart_columns_of ts @ (if hour_of t = 0 \<and> minute_of t = 0 \<and> 0 < length ts
                           then [Separator, Data (length ts)] else [Data (length ts)])"
proof -
  let ?g = "\<lambda>xs i. if hour_of (xs ! i) = 0 \<and> minute_of (xs ! i) = 0 \<and> 0 < i
                   then [Separator, Data i] else [Data i]"
  have m: "map (?g (ts @ [t])) [0..<length ts] = map (?g ts) [0..<length ts]"
    by (rule map_cong) (simp_all add: nth_append)
  have "chart_columns_of (ts @ [t]) = concat (map (?g (ts @ [t])) [0..<length ts]) @ ?g (ts @ [t]) (length ts)"
    by (simp add: chart_columns_eq)
  also have "\<dots> = concat (map (?g ts) [0..<length ts]) @ ?g (ts @ [t]) (length ts)"
    by (simp only: m)
  also have "\<dots> = chart_columns_of ts @ ?g (ts @ [t]) (length ts)"
    by (simp only: chart_columns_eq)
  finally show ?thesis by simp
qed

text \<open>The shape of the columns, by induction from the right.\<close>

lemma columns_shape:
  "ts \<noteq> [] \<Longrightarrow>
     hd (chart_columns_of ts) = Data 0
     \<and> last (chart_columns_of ts) \<noteq> Separator
     \<and> chart_columns_of ts \<noteq> []
     \<and> (\<forall>k<length (chart_columns_of ts). chart_columns_of ts ! k = Separator \<longrightarrow>
           Suc k < length (chart_columns_of ts) \<and> chart_columns_of ts ! Suc k \<noteq> Separator)"
proof (induction ts rule: rev_induct)
  case Nil
  then show ?case by simp
next
  case (snoc t ts)
  show ?case
  proof (cases "ts = []")
    case True
    then show ?thesis by (simp add: chart_columns_eq)
  next
    case False
    let ?c = "chart_columns_of ts"
    from snoc.IH [OF False] have hd: "hd ?c = Data 0" and la: "last ?c \<noteq> Separator"
      and ne: "?c \<noteq> []"
      and seps: "\<forall>k<length ?c. ?c ! k = Separator \<longrightarrow> Suc k < length ?c \<and> ?c ! Suc k \<noteq> Separator"
      by blast+
    have la': "?c ! (length ?c - 1) \<noteq> Separator" using la ne by (simp add: last_conv_nth)
    show ?thesis
    proof (cases "hour_of t = 0 \<and> minute_of t = 0")
      case True
      then have eq: "chart_columns_of (ts @ [t]) = ?c @ [Separator, Data (length ts)]"
        using False by (simp add: chart_columns_snoc)
      have "\<forall>k<length (?c @ [Separator, Data (length ts)]).
              (?c @ [Separator, Data (length ts)]) ! k = Separator \<longrightarrow>
              Suc k < length (?c @ [Separator, Data (length ts)])
              \<and> (?c @ [Separator, Data (length ts)]) ! Suc k \<noteq> Separator"
      proof (intro allI impI)
        fix k assume k: "k < length (?c @ [Separator, Data (length ts)])"
          and s: "(?c @ [Separator, Data (length ts)]) ! k = Separator"
        consider "k < length ?c" | "k = length ?c" | "k = Suc (length ?c)" using k by fastforce
        then show "Suc k < length (?c @ [Separator, Data (length ts)])
              \<and> (?c @ [Separator, Data (length ts)]) ! Suc k \<noteq> Separator"
        proof cases
          case 1
          then have "?c ! k = Separator" using s by (simp add: nth_append)
          then have "Suc k < length ?c \<and> ?c ! Suc k \<noteq> Separator" using seps 1 by blast
          then show ?thesis by (simp add: nth_append)
        next
          case 2
          then show ?thesis by (simp add: nth_append)
        next
          case 3
          then show ?thesis using s by (simp add: nth_append)
        qed
      qed
      then show ?thesis using hd ne by (simp add: eq)
    next
      case F2: False
      then have eq: "chart_columns_of (ts @ [t]) = ?c @ [Data (length ts)]"
        by (auto simp add: chart_columns_snoc)
      have "\<forall>k<length (?c @ [Data (length ts)]).
              (?c @ [Data (length ts)]) ! k = Separator \<longrightarrow>
              Suc k < length (?c @ [Data (length ts)])
              \<and> (?c @ [Data (length ts)]) ! Suc k \<noteq> Separator"
      proof (intro allI impI)
        fix k assume k: "k < length (?c @ [Data (length ts)])"
          and s: "(?c @ [Data (length ts)]) ! k = Separator"
        consider "k < length ?c" | "k = length ?c" using k by fastforce
        then show "Suc k < length (?c @ [Data (length ts)])
              \<and> (?c @ [Data (length ts)]) ! Suc k \<noteq> Separator"
        proof cases
          case 1
          then have "?c ! k = Separator" using s by (simp add: nth_append)
          then have "Suc k < length ?c \<and> ?c ! Suc k \<noteq> Separator" using seps 1 by blast
          then show ?thesis by (simp add: nth_append)
        next
          case 2
          then show ?thesis using s by (simp add: nth_append)
        qed
      qed
      then show ?thesis using hd ne by (simp add: eq)
    qed
  qed
qed

lemma day_step_simps:
  "day_step A tot (k, Separator) (dt, Some s, cdt, cdc) = (dt @ [((cdc + k) div 2, cdt, s)], None, 0, k + 1)"
  "day_step A tot (k, Separator) (dt, None, cdt, cdc) = (dt, None, 0, k + 1)"
  "day_step A tot (k, Data i) (dt, None, cdt, cdc) = (dt, Some (A ! i), cdt + tot ! i, k)"
  "day_step A tot (k, Data i) (dt, Some s, cdt, cdc) = (dt, Some s, cdt + tot ! i, cdc)"
  by (simp_all add: day_step_def)

lemma day_fold_shape:
  "ts \<noteq> [] \<Longrightarrow>
     fst (snd (fold (day_step A tot) (enumerate 0 (chart_columns_of ts)) ([], None, 0, 0))) \<noteq> None
     \<and> length (fst (fold (day_step A tot) (enumerate 0 (chart_columns_of ts)) ([], None, 0, 0)))
         = separators (chart_columns_of ts)"
proof (induction ts rule: rev_induct)
  case Nil
  then show ?case by simp
next
  case (snoc t ts)
  let ?c = "chart_columns_of ts"
  let ?st = "fold (day_step A tot) (enumerate 0 ?c) ([], None, 0, 0)"
  obtain dt cds cdt cdc where st: "?st = (dt, cds, cdt, cdc)" by (cases ?st) auto
  show ?case
  proof (cases "ts = []")
    case True
    then show ?thesis
      by (simp add: chart_columns_eq day_step_simps separators_def)
  next
    case False
    from snoc.IH [OF False] st have cds: "cds \<noteq> None" and len: "length dt = separators ?c"
      by simp_all
    then obtain s where s: "cds = Some s" by auto
    show ?thesis
    proof (cases "hour_of t = 0 \<and> minute_of t = 0")
      case True
      then have eq: "chart_columns_of (ts @ [t]) = ?c @ [Separator, Data (length ts)]"
        using False by (simp add: chart_columns_snoc)
      show ?thesis
        by (simp add: eq enumerate_append_eq st s len day_step_simps separators_def)
    next
      case F2: False
      then have eq: "chart_columns_of (ts @ [t]) = ?c @ [Data (length ts)]"
        by (auto simp add: chart_columns_snoc)
      show ?thesis
        by (simp add: eq enumerate_append_eq st s len day_step_simps separators_def)
    qed
  qed
qed

lemma length_daily_totals:
  "ts \<noteq> [] \<Longrightarrow>
     length (daily_totals_of A tot (chart_columns_of ts)) = separators (chart_columns_of ts) + 1"
proof -
  assume ne: "ts \<noteq> []"
  let ?st = "fold (day_step A tot) (enumerate 0 (chart_columns_of ts)) ([], None, 0, 0)"
  obtain dt cds cdt cdc where st: "?st = (dt, cds, cdt, cdc)" by (cases ?st) auto
  from day_fold_shape [OF ne, of A tot] st have "cds \<noteq> None" "length dt = separators (chart_columns_of ts)"
    by simp_all
  then show ?thesis by (auto simp: daily_totals_of_def st)
qed

lemma dense_axis_ok:
  assumes ne: "ts \<noteq> []" and d: "0 \<le> d" "d \<le> 999999999"
    and lo: "0 \<le> last_time_of ts - d * us_per_day"
    and hi: "last_time_of ts + us_per_hour \<le> datetime_max"
    and n2: "2 \<le> hourly_points ts d"
  shows "dense_axis ts d =
           Axis (fst (resample (map (\<lambda>i. window_start ts d + int i * us_per_hour)
                                    [0..<hourly_points ts d])))
                (map (\<lambda>j. window_start ts d + int (j * stride (hourly_points ts d)) * us_per_hour)
                    [0..<(hourly_points ts d + stride (hourly_points ts d) - 1)
                          div stride (hourly_points ts d)])"
proof -
  let ?r = "last_time_of ts - d * us_per_day"
  let ?xs = "map (\<lambda>i. window_start ts d + int i * us_per_hour) [0..<hourly_points ts d]"
  have ne': "sort (map fst ts) \<noteq> []" using ne by (metis Nil_is_map_conv length_0_conv length_sort)
  have "?r \<le> last_time_of ts" using d by (simp add: us_per_day_def)
  then have "?r \<le> datetime_max" using hi by (simp add: us_per_hour_def)
  then have md: "minus_days (last_time_of ts) d = Inr ?r"
    using d lo by (simp add: minus_days_def Let_def)
  have "?r mod us_per_hour \<le> ?r" using lo by (simp add: us_per_hour_def zmod_le_nonneg_dividend)
  then have w0: "0 \<le> window_start ts d" by (simp add: window_start_def replace_hour_def)
  have h: "hourly (window_start ts d) (last_time_of ts) [] = Inr ?xs"
    using hourly_eq [OF w0 hi, of "[]"] by (simp add: hourly_points_def)
  have "dense_axis ts d = Axis (fst (resample ?xs)) (snd (resample ?xs))"
    using ne ne' md h n2
    by (simp add: dense_axis_def Let_def last_time_of_def [symmetric] window_start_def [symmetric]
          split: prod.splits)
  then show ?thesis by (simp only: resample_map)
qed

lemma resample_small: "length xs \<le> 500 \<Longrightarrow> fst (resample xs) = []"
  by (simp add: resample_def)

lemma singleton_last_time: "last_time_of [(t, m)] = t"
  by (simp add: last_time_of_def)

lemma input_series_day:
  "dense_axis input_series 1 = Axis [] (map (\<lambda>i. 63871200000000000 + int i * 3600000000) [0..<25])"
proof -
  have l: "last_time_of input_series = 63871286400000000"
    by (simp add: input_series_def singleton_last_time)
  have w: "window_start input_series 1 = 63871200000000000"
    by (simp add: window_start_def l replace_hour_def us_per_day_def us_per_hour_def)
  have n: "hourly_points input_series 1 = 25"
    by (simp add: hourly_points_def l w us_per_hour_def)
  have s: "stride 25 = 1" by (simp add: stride_def)
  have ne: "input_series \<noteq> []" by (simp add: input_series_def)
  show ?thesis
    using dense_axis_ok [of input_series 1] ne
    by (simp add: l w n s resample_small us_per_day_def us_per_hour_def datetime_max_def)
qed

lemma axis_nonempty:
  assumes "dense_axis ts d = Axis notes kept"
  shows "kept \<noteq> []"
proof -
  let ?n = "hourly_points ts d"
  have "stride ?n \<le> ?n + stride ?n - 1"
    using dense_axis_Axis(2) [OF assms] by simp
  then have "1 \<le> (?n + stride ?n - 1) div stride ?n"
    using stride_pos [of ?n] by (simp add: Suc_le_eq div_greater_zero_iff)
  then show ?thesis using dense_axis_Axis(4) [OF assms] by auto
qed

text \<open>
  C10.  Whenever a chart is drawn, its column sequence starts with a data column, every
  separator is immediately followed by a data column (so no two separators are
  adjacent), and the number of daily totals is the number of separators plus one.
\<close>

theorem chart_columns_separate_days:
  assumes "dense_axis time_series days_back = Axis notes sorted_times"
  shows "hd (chart_columns_of sorted_times) = Data 0
         \<and> (\<forall>k<length (chart_columns_of sorted_times).
               chart_columns_of sorted_times ! k = Separator \<longrightarrow>
               Suc k < length (chart_columns_of sorted_times)
               \<and> (\<exists>i. chart_columns_of sorted_times ! Suc k = Data i))
         \<and> length (daily_totals_of sorted_times
                     (map (total_of chart_type) (map (breakdown_at time_series) sorted_times))
                     (chart_columns_of sorted_times))
             = separators (chart_columns_of sorted_times) + 1"
proof -
  have ne: "sorted_times \<noteq> []" using axis_nonempty [OF assms] .
  have data: "\<exists>i. c = Data i" if "c \<noteq> Separator" for c using that by (cases c) auto
  from columns_shape [OF ne] length_daily_totals [OF ne] data show ?thesis by blast
qed

lemma input_series_day_columns:
  "chart_columns_of (map (\<lambda>i. 63871200000000000 + int i * 3600000000) [0..<25])
     = map Data [0..<24] @ [Separator, Data 24]"
  by (simp add: chart_columns_eq hour_of_def minute_of_def us_per_hour_def upt_rec [of _ "numeral _"])

theorem chart_columns_separate_days_witness:
  "dense_axis input_series 1 = Axis [] (axis_times (dense_axis input_series 1))
   \<and> hd (chart_columns_of (axis_times (dense_axis input_series 1))) = Data 0
   \<and> chart_columns_of (axis_times (dense_axis input_series 1)) ! 24 = Separator
   \<and> chart_columns_of (axis_times (dense_axis input_series 1)) ! 25 = Data 24
   \<and> length (daily_totals_of (axis_times (dense_axis input_series 1))
               (map (total_of ''io'')
                  (map (breakdown_at input_series) (axis_times (dense_axis input_series 1))))
               (chart_columns_of (axis_times (dense_axis input_series 1)))) = 2"
proof -
  let ?K = "map (\<lambda>i. 63871200000000000 + int i * 3600000000) [0..<25]"
  have ax: "axis_times (dense_axis input_series 1) = ?K"
    by (simp only: input_series_day axis_times_def axis.case)
  have hyp: "dense_axis input_series 1 = Axis [] ?K" by (rule input_series_day)
  have c24: "chart_columns_of ?K ! 24 = Separator" and c25: "chart_columns_of ?K ! 25 = Data 24"
    and sep: "separators (chart_columns_of ?K) = 1"
    by (simp_all add: input_series_day_columns nth_append separators_def)
  let ?T = "map (total_of ''io'') (map (breakdown_at input_series) ?K)"
  from chart_columns_separate_days [OF hyp, of "''io''"]
  have h: "hd (chart_columns_of ?K) = Data 0"
    and n: "length (daily_totals_of ?K ?T (chart_columns_of ?K)) = separators (chart_columns_of ?K) + 1"
    by blast+
  have n2: "length (daily_totals_of ?K ?T (chart_columns_of ?K)) = 2"
    by (simp only: n sep)
  show ?thesis
    unfolding ax using hyp h c24 c25 n2 by (intro conjI)
qed

lemma hour_pos: "0 < us_per_hour"
  by (simp add: us_per_hour_def)

lemma day_hours: "us_per_day = 24 * us_per_hour"
  by (simp add: us_per_day_def us_per_hour_def)

lemma replace_hour_minus_days:
  "replace_hour (t - d * us_per_day) = replace_hour t - d * us_per_day"
proof -
  have "t - d * us_per_day = t + (- (24 * d)) * us_per_hour"
    by (simp add: day_hours)
  then have "(t - d * us_per_day) mod us_per_hour = t mod us_per_hour"
    by (simp only: mod_mult_self1)
  then show ?thesis by (simp add: replace_hour_def)
qed

lemma hourly_points_eq: "hourly_points ts d = nat (24 * d + 1)"
proof -
  let ?L = "last_time_of ts"
  have "window_start ts d = replace_hour ?L - d * us_per_day"
    by (simp only: window_start_def replace_hour_minus_days)
  then have "?L - window_start ts d = ?L mod us_per_hour + (24 * d) * us_per_hour"
    by (simp add: replace_hour_def day_hours)
  moreover have "(?L mod us_per_hour + (24 * d) * us_per_hour) div us_per_hour
                 = 24 * d + (?L mod us_per_hour) div us_per_hour"
    using hour_pos by (subst div_mult_self1) simp_all
  moreover have "(?L mod us_per_hour) div us_per_hour = 0"
    using hour_pos by (simp add: div_pos_pos_trivial)
  ultimately show ?thesis by (simp add: hourly_points_def)
qed

lemma window_start_hour: "window_start ts d mod us_per_hour = 0"
  by (simp add: window_start_def replace_hour_def minus_mod_eq_mult_div)

lemma hour_of_step:
  assumes "w mod us_per_hour = 0"
  shows "hour_of (w + int i * us_per_hour) = (w div us_per_hour + int i) mod 24"
    and "minute_of (w + int i * us_per_hour) = 0"
proof -
  have w: "w = (w div us_per_hour) * us_per_hour"
    using assms by (simp add: mod_0_imp_dvd)
  have "(w + int i * us_per_hour) div us_per_hour = w div us_per_hour + int i"
    using hour_pos by simp
  then show "hour_of (w + int i * us_per_hour) = (w div us_per_hour + int i) mod 24"
    by (simp add: hour_of_def)
  have "w + int i * us_per_hour = (w div us_per_hour + int i) * us_per_hour"
    using w by (simp add: algebra_simps)
  also have "\<dots> = 60000000 * (60 * (w div us_per_hour + int i))"
    by (simp add: us_per_hour_def)
  finally have "(w + int i * us_per_hour) div 60000000 = 60 * (w div us_per_hour + int i)"
    by simp
  then show "minute_of (w + int i * us_per_hour) = 0" by (simp add: minute_of_def)
qed

lemma separators_concat:
  "separators (concat (map (\<lambda>i. if P i then [Separator, Data i] else [Data i]) xs))
     = length (filter P xs)"
  by (induction xs) (simp_all add: separators_def)

lemma separators_eq:
  "separators (chart_columns_of ts)
     = length (filter (\<lambda>i. hour_of (ts ! i) = 0 \<and> minute_of (ts ! i) = 0 \<and> 0 < i) [0..<length ts])"
  by (simp only: chart_columns_eq separators_concat)

text \<open>Among 24 consecutive hours exactly one is a midnight.\<close>


lemma residue_24:
  assumes "0 \<le> k" "k < (24::int)"
  shows "((z + k) mod 24 = 0) = (k = (- z) mod 24)"
proof
  assume h: "(z + k) mod 24 = 0"
  have "(- z) mod 24 = (k - (z + k)) mod 24" by simp
  also have "\<dots> = (k mod 24 - (z + k) mod 24) mod 24" by (rule mod_diff_eq [symmetric])
  also have "\<dots> = k" using h assms by simp
  finally show "k = (- z) mod 24" by simp
next
  assume "k = (- z) mod 24"
  then have "(z + k) mod 24 = (z + (- z) mod 24) mod 24" by simp
  also have "\<dots> = (z + (- z)) mod 24" by (rule mod_add_right_eq)
  finally show "(z + k) mod 24 = 0" by simp
qed

lemma one_midnight_in_24:
  "length (filter (\<lambda>i. (q + int i) mod 24 = 0) [a..<a + 24]) = 1"
proof -
  define i0 where "i0 = a + nat ((- (q + int a)) mod 24)"
  have i0: "int i0 = int a + (- (q + int a)) mod 24"
  proof -
    have "0 \<le> (- (q + int a)) mod 24" by simp
    then show ?thesis by (simp add: i0_def)
  qed
  have b: "0 \<le> (- (q + int a)) mod 24" "(- (q + int a)) mod 24 < 24" by simp_all
  have "((q + int i) mod 24 = 0 \<and> a \<le> i \<and> i < a + 24) = (i = i0)" for i
  proof (cases "a \<le> i \<and> i < a + 24")
    case True
    then have k: "0 \<le> int i - int a" "int i - int a < 24" by simp_all
    have "q + int i = (q + int a) + (int i - int a)" by simp
    then have "((q + int i) mod 24 = 0) = (((q + int a) + (int i - int a)) mod 24 = 0)"
      by (simp only:)
    also have "\<dots> = (int i - int a = (- (q + int a)) mod 24)" by (rule residue_24 [OF k])
    also have "\<dots> = (i = i0)" using i0 by linarith
    finally show ?thesis using True by simp
  next
    case False
    have "a \<le> i0 \<and> i0 < a + 24" using i0 b by linarith
    then show ?thesis using False by blast
  qed
  then have m: "\<And>i. (i \<in> {i. (q + int i) mod 24 = 0} \<inter> {a..<a + 24}) = (i \<in> {i0})"
    by simp
  have "{i. (q + int i) mod 24 = 0} \<inter> {a..<a + 24} = {i0}"
    by (rule set_eqI) (rule m)
  moreover have "length (filter (\<lambda>i. (q + int i) mod 24 = 0) [a..<a + 24])
      = card ({i. (q + int i) mod 24 = 0} \<inter> set [a..<a + 24])"
    by (rule distinct_length_filter) (rule distinct_upt)
  ultimately show ?thesis by (simp only: set_upt card.empty card_insert_if finite.emptyI) simp
qed

lemma midnights_in_days:
  "length (filter (\<lambda>i. (q + int i) mod 24 = 0) [a..<a + 24 * d]) = d"
proof (induction d)
  case 0
  show ?case by simp
next
  case (Suc d)
  have e: "a + 24 * Suc d = (a + 24 * d) + 24" by simp
  have "[a..<a + 24 * Suc d] = [a..<a + 24 * d] @ [a + 24 * d..<(a + 24 * d) + 24]"
    by (simp only: e) (rule upt_add_eq_append, simp)
  then have "filter (\<lambda>i. (q + int i) mod 24 = 0) [a..<a + 24 * Suc d]
      = filter (\<lambda>i. (q + int i) mod 24 = 0) [a..<a + 24 * d]
        @ filter (\<lambda>i. (q + int i) mod 24 = 0) [a + 24 * d..<(a + 24 * d) + 24]"
    by (simp only: filter_append)
  then have "length (filter (\<lambda>i. (q + int i) mod 24 = 0) [a..<a + 24 * Suc d])
      = length (filter (\<lambda>i. (q + int i) mod 24 = 0) [a..<a + 24 * d])
        + length (filter (\<lambda>i. (q + int i) mod 24 = 0) [a + 24 * d..<(a + 24 * d) + 24])"
    by (simp only: length_append)
  then show ?case
    by (simp only: Suc.IH one_midnight_in_24)
qed


lemma hourly_separators:
  assumes w: "w mod us_per_hour = 0"
  shows "separators (chart_columns_of (map (\<lambda>i. w + int i * us_per_hour) [0..<Suc (24 * d)])) = d"
proof -
  let ?K = "map (\<lambda>i. w + int i * us_per_hour) [0..<Suc (24 * d)]"
  let ?q = "w div us_per_hour"
  have "filter (\<lambda>i. hour_of (?K ! i) = 0 \<and> minute_of (?K ! i) = 0 \<and> 0 < i) [0..<Suc (24 * d)]
        = filter (\<lambda>i. (?q + int i) mod 24 = 0 \<and> 0 < i) [0..<Suc (24 * d)]"
  proof (rule filter_cong [OF refl])
    fix i assume "i \<in> set [0..<Suc (24 * d)]"
    then have "i < Suc (24 * d)" by (simp only: set_upt atLeastLessThan_iff)
    then have "?K ! i = w + int i * us_per_hour"
      by (simp only: nth_map_upt [of i "Suc (24 * d)" 0] minus_nat.diff_0) simp
    then show "(hour_of (?K ! i) = 0 \<and> minute_of (?K ! i) = 0 \<and> 0 < i)
               = ((?q + int i) mod 24 = 0 \<and> 0 < i)"
      by (simp only: hour_of_step [OF w]) simp
  qed
  also have "\<dots> = filter (\<lambda>i. (?q + int i) mod 24 = 0 \<and> 0 < i) [1..<1 + 24 * d]"
    by (simp add: upt_conv_Cons del: upt_Suc)
  also have "\<dots> = filter (\<lambda>i. (?q + int i) mod 24 = 0) [1..<1 + 24 * d]"
  proof (rule filter_cong [OF refl])
    fix i assume "i \<in> set [1..<1 + 24 * d]"
    then have "1 \<le> i" by (simp only: set_upt atLeastLessThan_iff)
    then show "((?q + int i) mod 24 = 0 \<and> 0 < i) = ((?q + int i) mod 24 = 0)" by simp
  qed
  finally have "length (filter (\<lambda>i. hour_of (?K ! i) = 0 \<and> minute_of (?K ! i) = 0 \<and> 0 < i)
                   [0..<Suc (24 * d)]) = d"
    by (simp only: midnights_in_days)
  moreover have "length ?K = Suc (24 * d)" by simp
  ultimately show ?thesis by (simp only: separators_eq)
qed

lemma ten_day_axis:
  assumes "dense_axis ts 10 = Axis notes kept"
  shows "kept = map (\<lambda>i. window_start ts 10 + int i * us_per_hour) [0..<241]"
    and "separators (chart_columns_of kept) = 10"
proof -
  have n: "hourly_points ts 10 = 241" by (simp add: hourly_points_eq)
  have s: "stride 241 = 1" by (simp add: stride_def)
  show k: "kept = map (\<lambda>i. window_start ts 10 + int i * us_per_hour) [0..<241]"
    using dense_axis_Axis(4) [OF assms] by (simp add: n s del: upt_Suc)
  have "separators (chart_columns_of
           (map (\<lambda>i. window_start ts 10 + int i * us_per_hour) [0..<Suc (24 * 10)])) = 10"
    by (rule hourly_separators [OF window_start_hour])
  then show "separators (chart_columns_of kept) = 10" by (simp add: k del: upt_Suc)
qed

lemma example_axis:
  assumes d: "1 \<le> d" "d \<le> 20"
  shows "dense_axis [(63871286400000000, m)] d
         = Axis [] (map (\<lambda>i. (63871286400000000 - d * us_per_day) + int i * us_per_hour)
                        [0..<nat (24 * d + 1)])"
proof -
  let ?ts = "[(63871286400000000, m)] :: time_series"
  have l: "last_time_of ?ts = 63871286400000000" by (rule singleton_last_time)
  have "replace_hour 63871286400000000 = 63871286400000000"
    by (simp add: replace_hour_def us_per_hour_def)
  then have w: "window_start ?ts d = 63871286400000000 - d * us_per_day"
    by (simp only: window_start_def l replace_hour_minus_days)
  have n: "hourly_points ?ts d = nat (24 * d + 1)" by (rule hourly_points_eq)
  have n500: "nat (24 * d + 1) \<le> 500" using d by simp
  then have s: "stride (nat (24 * d + 1)) = 1" by (simp add: stride_def)
  have r: "fst (resample (map (\<lambda>i. window_start ?ts d + int i * us_per_hour)
                 [0..<nat (24 * d + 1)])) = []"
    using n500 by (simp add: resample_small)
  have "dense_axis ?ts d =
           Axis (fst (resample (map (\<lambda>i. window_start ?ts d + int i * us_per_hour)
                                    [0..<hourly_points ?ts d])))
                (map (\<lambda>j. window_start ?ts d + int (j * stride (hourly_points ?ts d)) * us_per_hour)
                    [0..<(hourly_points ?ts d + stride (hourly_points ?ts d) - 1)
                          div stride (hourly_points ?ts d)])"
  proof (rule dense_axis_ok)
    show "?ts \<noteq> []" by simp
    show "0 \<le> d" "d \<le> 999999999" using d by simp_all
    show "0 \<le> last_time_of ?ts - d * us_per_day" using d by (simp add: l us_per_day_def)
    show "last_time_of ?ts + us_per_hour \<le> datetime_max"
      by (simp add: l us_per_hour_def datetime_max_def)
    show "2 \<le> hourly_points ?ts d" using d by (simp add: n)
  qed
  then show ?thesis by (simp only: n s r) (simp add: w)
qed

lemma day_change: "((a::int) div 24 \<noteq> (a - 1) div 24) = (a mod 24 = 0)"
proof -
  define q r where "q = a div 24" and "r = a mod 24"
  have e: "a = 24 * q + r" by (simp add: q_def r_def)
  have b: "0 \<le> r" "r < 24" by (simp_all add: r_def)
  show ?thesis
  proof (cases "r = 0")
    case True
    have "a - 1 = 24 * (q - 1) + 23" using e True by simp
    then have "(a - 1) div 24 = q - 1" by (rule int_div_pos_eq) simp_all
    then show ?thesis using True by (simp add: q_def [symmetric] r_def [symmetric])
  next
    case False
    have "a - 1 = 24 * q + (r - 1)" using e by simp
    moreover have "0 \<le> r - 1" "r - 1 < 24" using b False by simp_all
    ultimately have "(a - 1) div 24 = q" by (rule int_div_pos_eq)
    then show ?thesis using False by (simp add: q_def [symmetric] r_def [symmetric])
  qed
qed

lemma day_of_step:
  assumes "w mod us_per_hour = 0"
  shows "day_of (w + int i * us_per_hour) = (w div us_per_hour + int i) div 24"
proof -
  have w: "w = (w div us_per_hour) * us_per_hour"
    using assms by (simp add: mod_0_imp_dvd)
  have "(w + int i * us_per_hour) div us_per_hour = w div us_per_hour + int i"
    using hour_pos by simp
  moreover have "(w + int i * us_per_hour) div (us_per_hour * 24)
                 = ((w + int i * us_per_hour) div us_per_hour) div 24"
    by (rule zdiv_zmult2_eq) simp
  moreover have "us_per_day = us_per_hour * 24" by (simp add: day_hours)
  ultimately show ?thesis by (simp only: day_of_def)
qed

lemma hourly_placement:
  assumes w: "w mod us_per_hour = 0"
  shows "chart_columns_of (map (\<lambda>i. w + int i * us_per_hour) [0..<n])
         = concat (map (\<lambda>i. if 0 < i
                               \<and> day_of (map (\<lambda>i. w + int i * us_per_hour) [0..<n] ! i)
                                   \<noteq> day_of (map (\<lambda>i. w + int i * us_per_hour) [0..<n] ! (i - 1))
                             then [Separator, Data i] else [Data i]) [0..<n])"
proof -
  let ?K = "map (\<lambda>i. w + int i * us_per_hour) [0..<n]"
  let ?q = "w div us_per_hour"
  have "map (\<lambda>i. if hour_of (?K ! i) = 0 \<and> minute_of (?K ! i) = 0 \<and> 0 < i
                   then [Separator, Data i] else [Data i]) [0..<n]
        = map (\<lambda>i. if 0 < i \<and> day_of (?K ! i) \<noteq> day_of (?K ! (i - 1))
                     then [Separator, Data i] else [Data i]) [0..<n]"
  proof (rule map_cong [OF refl])
    fix i assume "i \<in> set [0..<n]"
    then have i: "i < n" by (simp only: set_upt atLeastLessThan_iff)
    then have k: "?K ! i = w + int i * us_per_hour"
      by (simp only: nth_map_upt [of i n 0] minus_nat.diff_0) simp
    have c: "(hour_of (?K ! i) = 0 \<and> minute_of (?K ! i) = 0 \<and> 0 < i)
             = (0 < i \<and> day_of (?K ! i) \<noteq> day_of (?K ! (i - 1)))"
    proof (cases "0 < i")
      case False
      then show ?thesis by simp
    next
      case True
      then have "i - 1 < n" using i by simp
      then have k1: "?K ! (i - 1) = w + int (i - 1) * us_per_hour"
        by (simp only: nth_map_upt [of "i - 1" n 0] minus_nat.diff_0) simp
      have e: "?q + int (i - 1) = (?q + int i) - 1" using True by simp
      have "(day_of (?K ! i) \<noteq> day_of (?K ! (i - 1)))
            = ((?q + int i) div 24 \<noteq> ((?q + int i) - 1) div 24)"
        by (simp only: k k1 day_of_step [OF w] e)
      also have "\<dots> = ((?q + int i) mod 24 = 0)" by (rule day_change)
      finally have "(day_of (?K ! i) \<noteq> day_of (?K ! (i - 1))) = ((?q + int i) mod 24 = 0)" .
      moreover have "hour_of (?K ! i) = (?q + int i) mod 24" "minute_of (?K ! i) = 0"
        by (simp_all only: k hour_of_step [OF w])
      ultimately show ?thesis using True by simp
    qed
    show "(if hour_of (?K ! i) = 0 \<and> minute_of (?K ! i) = 0 \<and> 0 < i
           then [Separator, Data i] else [Data i])
          = (if 0 < i \<and> day_of (?K ! i) \<noteq> day_of (?K ! (i - 1))
             then [Separator, Data i] else [Data i])"
      by (simp only: c)
  qed
  moreover have "length ?K = n" by simp
  ultimately show ?thesis by (simp only: chart_columns_eq)
qed

lemma hourly_days:
  assumes w: "w mod us_per_hour = 0"
  shows "day_of ` set (map (\<lambda>i. w + int i * us_per_hour) [0..<Suc (24 * d)])
         = {day_of w..day_of w + int d}"
proof -
  let ?q = "w div us_per_hour"
  have dw: "day_of w = ?q div 24" using day_of_step [OF w, of 0] by simp
  have im: "day_of ` set (map (\<lambda>i. w + int i * us_per_hour) [0..<Suc (24 * d)])
            = (\<lambda>i. (?q + int i) div 24) ` {0..<Suc (24 * d)}"
    by (simp only: set_map set_upt image_image day_of_step [OF w])
  have "(\<lambda>i. (?q + int i) div 24) ` {0..<Suc (24 * d)} = {?q div 24..?q div 24 + int d}"
  proof (rule set_eqI, rule iffI)
    fix k assume "k \<in> (\<lambda>i. (?q + int i) div 24) ` {0..<Suc (24 * d)}"
    then obtain i where i: "i < Suc (24 * d)" and k: "k = (?q + int i) div 24" by auto
    have "?q div 24 \<le> (?q + int i) div 24" by (rule zdiv_mono1) simp_all
    moreover have "(?q + int i) div 24 \<le> (?q + 24 * int d) div 24"
      using i by (intro zdiv_mono1) simp_all
    moreover have "(?q + 24 * int d) div 24 = ?q div 24 + int d" by simp
    ultimately show "k \<in> {?q div 24..?q div 24 + int d}" using k by simp
  next
    fix k assume "k \<in> {?q div 24..?q div 24 + int d}"
    then have b: "?q div 24 \<le> k" "k \<le> ?q div 24 + int d" by simp_all
    define j where "j = nat (k - ?q div 24)"
    have j: "int j = k - ?q div 24" "j \<le> d" using b by (simp_all add: j_def)
    have "(?q + int (24 * j)) div 24 = ?q div 24 + int j" by simp
    then have "k = (?q + int (24 * j)) div 24" using j(1) by simp
    moreover have "24 * j \<in> {0..<Suc (24 * d)}" using j(2) by simp
    ultimately show "k \<in> (\<lambda>i. (?q + int i) div 24) ` {0..<Suc (24 * d)}" by (rule image_eqI)
  qed
  then show ?thesis by (simp only: im dw)
qed

text \<open>
  C3, as the code has it.  With a 10-day trailing window the dense axis has 241 hourly
  points, from the rounded start to the latest bucket inclusive, and they fall on 11
  calendar days in a row.  A separator stands immediately before the data column of
  point \<open>i\<close> exactly when \<open>i\<close> is not 0 and point \<open>i\<close> is on another calendar day than point
  \<open>i - 1\<close>, that is, before the first data column of every day but the first; the other
  data columns follow their predecessor directly.  So the chart begins with a data
  column and has exactly 10 separator columns.
\<close>

theorem ten_day_window_separators:
  assumes "dense_axis time_series 10 = Axis notes sorted_times"
  shows "length sorted_times = 241
         \<and> day_of ` set sorted_times
             = {day_of (hd sorted_times)..day_of (hd sorted_times) + 10}
         \<and> chart_columns_of sorted_times
             = concat (map (\<lambda>i. if 0 < i
                                   \<and> day_of (sorted_times ! i) \<noteq> day_of (sorted_times ! (i - 1))
                                 then [Separator, Data i] else [Data i]) [0..<241])
         \<and> separators (chart_columns_of sorted_times) = 10
         \<and> hd (chart_columns_of sorted_times) = Data 0"
proof -
  let ?w = "window_start time_series 10"
  note k = ten_day_axis(1) [OF assms]
  have len: "length sorted_times = 241" by (simp add: k)
  have h: "hd sorted_times = ?w" by (simp add: k upt_conv_Cons del: upt_Suc)
  have "day_of ` set (map (\<lambda>i. ?w + int i * us_per_hour) [0..<Suc (24 * 10)])
        = {day_of ?w..day_of ?w + int 10}"
    by (rule hourly_days [OF window_start_hour])
  then have days: "day_of ` set sorted_times
                   = {day_of (hd sorted_times)..day_of (hd sorted_times) + 10}"
    by (simp add: k [symmetric] h del: upt_Suc)
  have place: "chart_columns_of sorted_times
               = concat (map (\<lambda>i. if 0 < i
                                     \<and> day_of (sorted_times ! i) \<noteq> day_of (sorted_times ! (i - 1))
                                   then [Separator, Data i] else [Data i]) [0..<241])"
    using hourly_placement [OF window_start_hour, of time_series 10 241]
    by (simp only: k [symmetric])
  have sep: "separators (chart_columns_of sorted_times) = 10" by (rule ten_day_axis(2) [OF assms])
  have first: "hd (chart_columns_of sorted_times) = Data 0"
    using columns_shape [OF axis_nonempty [OF assms]] by blast
  from len days place sep first show ?thesis by (intro conjI)
qed

theorem ten_day_window_separators_witness:
  "dense_axis cache_read_series 10 = Axis [] (axis_times (dense_axis cache_read_series 10))
   \<and> length (axis_times (dense_axis cache_read_series 10)) = 241
   \<and> day_of ` set (axis_times (dense_axis cache_read_series 10))
       = {day_of (hd (axis_times (dense_axis cache_read_series 10)))
          ..day_of (hd (axis_times (dense_axis cache_read_series 10))) + 10}
   \<and> separators (chart_columns_of (axis_times (dense_axis cache_read_series 10))) = 10
   \<and> hd (chart_columns_of (axis_times (dense_axis cache_read_series 10))) = Data 0"
proof -
  obtain K where hyp: "dense_axis cache_read_series 10 = Axis [] K"
    using example_axis [of 10] by (simp add: cache_read_series_def)
  have ax: "axis_times (dense_axis cache_read_series 10) = K"
    by (simp only: hyp axis_times_def axis.case)
  show ?thesis unfolding ax using ten_day_window_separators [OF hyp] hyp by blast
qed

text \<open>
  C3 as stated fails: for the series with the single bucket 2025-01-01 00:00 and a
  10-day window the chart is drawn and its number of separator columns is not 9.
\<close>

theorem ten_day_window_nine_separators_counterexample:
  "dense_axis input_series 10 = Axis [] (axis_times (dense_axis input_series 10))
   \<and> separators (chart_columns_of (axis_times (dense_axis input_series 10))) \<noteq> 9"
proof -
  obtain K where hyp: "dense_axis input_series 10 = Axis [] K"
    using example_axis [of 10] by (simp add: input_series_def)
  have ax: "axis_times (dense_axis input_series 10) = K"
    by (simp only: hyp axis_times_def axis.case)
  have "separators (chart_columns_of K) = 10" by (rule ten_day_axis(2) [OF hyp])
  then have "separators (chart_columns_of K) \<noteq> 9" by simp
  then show ?thesis unfolding ax using hyp by blast
qed

lemma example_axis_any:
  assumes d: "1 \<le> d" "d \<le> 700000"
  shows "dense_axis [(63871286400000000, m)] d
         = Axis (fst (resample (map (\<lambda>i. (63871286400000000 - d * us_per_day) + int i * us_per_hour)
                                    [0..<nat (24 * d + 1)])))
                (map (\<lambda>j. (63871286400000000 - d * us_per_day)
                            + int (j * stride (nat (24 * d + 1))) * us_per_hour)
                     [0..<(nat (24 * d + 1) + stride (nat (24 * d + 1)) - 1)
                           div stride (nat (24 * d + 1))])"
proof -
  let ?ts = "[(63871286400000000, m)] :: time_series"
  have l: "last_time_of ?ts = 63871286400000000" by (rule singleton_last_time)
  have "replace_hour 63871286400000000 = 63871286400000000"
    by (simp add: replace_hour_def us_per_hour_def)
  then have w: "window_start ?ts d = 63871286400000000 - d * us_per_day"
    by (simp only: window_start_def l replace_hour_minus_days)
  have n: "hourly_points ?ts d = nat (24 * d + 1)" by (rule hourly_points_eq)
  have "dense_axis ?ts d =
           Axis (fst (resample (map (\<lambda>i. window_start ?ts d + int i * us_per_hour)
                                    [0..<hourly_points ?ts d])))
                (map (\<lambda>j. window_start ?ts d + int (j * stride (hourly_points ?ts d)) * us_per_hour)
                    [0..<(hourly_points ?ts d + stride (hourly_points ?ts d) - 1)
                          div stride (hourly_points ?ts d)])"
  proof (rule dense_axis_ok)
    show "?ts \<noteq> []" by simp
    show "0 \<le> d" "d \<le> 999999999" using d by simp_all
    show "0 \<le> last_time_of ?ts - d * us_per_day" using d by (simp add: l us_per_day_def)
    show "last_time_of ?ts + us_per_hour \<le> datetime_max"
      by (simp add: l us_per_hour_def datetime_max_def)
    show "2 \<le> hourly_points ?ts d" using d by (simp add: n)
  qed
  then show ?thesis by (simp only: n w)
qed

lemma axis_ends:
  assumes "dense_axis ts d = Axis notes kept"
  shows "hd kept = replace_hour (last_time_of ts - d * us_per_day)"
    and "last kept = replace_hour (last_time_of ts)
                     - int ((hourly_points ts d - 1) mod stride (hourly_points ts d)) * us_per_hour"
proof -
  let ?n = "hourly_points ts d"
  let ?s = "stride ?n"
  let ?m = "(?n + ?s - 1) div ?s"
  let ?w = "window_start ts d"
  have k: "kept = map (\<lambda>j. ?w + int (j * ?s) * us_per_hour) [0..<?m]"
    by (rule dense_axis_Axis(4) [OF assms])
  have n2: "2 \<le> ?n" by (rule dense_axis_Axis(2) [OF assms])
  have s: "0 < ?s" by (rule stride_pos)
  have "?n + ?s - 1 = (?n - 1) + 1 * ?s" using n2 by simp
  then have "?m = (?n - 1) div ?s + 1" using s by (simp only: div_mult_self1)
  then have m: "?m = Suc ((?n - 1) div ?s)" by simp
  have "hd kept = ?w" by (simp only: k m) (simp add: upt_conv_Cons del: upt_Suc)
  then show "hd kept = replace_hour (last_time_of ts - d * us_per_day)"
    by (simp only: window_start_def)
  have "last kept = ?w + int (((?n - 1) div ?s) * ?s) * us_per_hour"
    by (simp only: k m) (simp del: upt_Suc add: last_map)
  moreover have "int (((?n - 1) div ?s) * ?s) = int (?n - 1) - int ((?n - 1) mod ?s)"
  proof -
    have "((?n - 1) div ?s) * ?s + (?n - 1) mod ?s = ?n - 1" by (rule div_mult_mod_eq)
    then have "int (((?n - 1) div ?s) * ?s) + int ((?n - 1) mod ?s) = int (?n - 1)"
      by (simp only: of_nat_add [symmetric])
    then show ?thesis by linarith
  qed
  ultimately have l1: "last kept = ?w + (int (?n - 1) - int ((?n - 1) mod ?s)) * us_per_hour"
    by (simp only:)
  have d0: "0 \<le> d"
  proof (rule ccontr)
    assume "\<not> 0 \<le> d"
    then have "nat (24 * d + 1) = 0" by simp
    then show False using n2 by (simp add: hourly_points_eq)
  qed
  then have n1: "int (?n - 1) = 24 * d" by (simp add: hourly_points_eq)
  have w: "?w = replace_hour (last_time_of ts) - d * us_per_day"
    by (simp only: window_start_def replace_hour_minus_days)
  show "last kept = replace_hour (last_time_of ts) - int ((?n - 1) mod ?s) * us_per_hour"
    by (simp only: l1 n1 w) (simp add: day_hours algebra_simps)
qed

lemma axis_last_le:
  assumes "dense_axis ts d = Axis notes kept"
  shows "last kept \<le> last_time_of ts"
proof -
  have "0 \<le> last_time_of ts mod us_per_hour" using hour_pos by simp
  then have "replace_hour (last_time_of ts) \<le> last_time_of ts" by (simp add: replace_hour_def)
  moreover have "0 \<le> int ((hourly_points ts d - 1) mod stride (hourly_points ts d)) * us_per_hour"
    using hour_pos by simp
  ultimately show ?thesis using axis_ends(2) [OF assms] by linarith
qed

lemma axis_last_whole:
  assumes "dense_axis ts d = Axis notes kept" and "hourly_points ts d \<le> 500"
  shows "last kept = replace_hour (last_time_of ts)"
proof -
  have "stride (hourly_points ts d) = 1" using assms(2) by (simp add: stride_def)
  then show ?thesis using axis_ends(2) [OF assms(1)] by simp
qed

text \<open>
  C5, as the code has it.  The series used for charting starts at the lower bound of the
  window rounded down to the hour, and its last bucket is never later than the latest
  timestamp of the input.  When the window has at most 500 hourly points, so that
  nothing is resampled, the last bucket is the latest timestamp rounded down to the
  hour, which is the latest timestamp itself when that is on the hour.
\<close>

theorem dense_axis_span:
  assumes "dense_axis time_series days_back = Axis notes sorted_times"
  shows "hd sorted_times = replace_hour (last_time_of time_series - days_back * us_per_day)
         \<and> last sorted_times \<le> last_time_of time_series
         \<and> (hourly_points time_series days_back \<le> 500
              \<longrightarrow> last sorted_times = replace_hour (last_time_of time_series))
         \<and> (hourly_points time_series days_back \<le> 500
              \<and> last_time_of time_series mod us_per_hour = 0
              \<longrightarrow> last sorted_times = last_time_of time_series)"
proof -
  note h = axis_ends(1) [OF assms]
  note l = axis_last_le [OF assms]
  have w: "hourly_points time_series days_back \<le> 500
           \<longrightarrow> last sorted_times = replace_hour (last_time_of time_series)"
    using axis_last_whole [OF assms] by blast
  have "hourly_points time_series days_back \<le> 500
          \<and> last_time_of time_series mod us_per_hour = 0
        \<longrightarrow> last sorted_times = last_time_of time_series"
    using axis_last_whole [OF assms] by (simp add: replace_hour_def)
  with h l w show ?thesis by (intro conjI)
qed

theorem dense_axis_span_witness:
  "dense_axis cache_read_series 1 = Axis [] (axis_times (dense_axis cache_read_series 1))
   \<and> hourly_points cache_read_series 1 \<le> 500
   \<and> last_time_of cache_read_series mod us_per_hour = 0
   \<and> hd (axis_times (dense_axis cache_read_series 1)) = 63871200000000000
   \<and> last (axis_times (dense_axis cache_read_series 1)) = 63871286400000000"
proof -
  obtain K where hyp: "dense_axis cache_read_series 1 = Axis [] K"
    using example_axis [of 1] by (simp add: cache_read_series_def)
  have ax: "axis_times (dense_axis cache_read_series 1) = K"
    by (simp only: hyp axis_times_def axis.case)
  have l: "last_time_of cache_read_series = 63871286400000000"
    by (simp add: cache_read_series_def singleton_last_time)
  have a: "last_time_of cache_read_series mod us_per_hour = 0"
    by (simp add: l us_per_hour_def)
  have n: "hourly_points cache_read_series 1 \<le> 500" by (simp add: hourly_points_eq)
  from dense_axis_span [OF hyp] n a
  have "hd K = replace_hour (last_time_of cache_read_series - 1 * us_per_day)"
    and "last K = last_time_of cache_read_series" by blast+
  then have "hd K = 63871200000000000" and "last K = 63871286400000000"
    by (simp_all add: l replace_hour_def us_per_day_def us_per_hour_def)
  then show ?thesis unfolding ax using hyp n a by blast
qed

lemma last_slice_step:
  assumes s: "0 < s" and n: "0 < n"
  shows "last (slice_step s (map f [0..<n])) = f (((n - 1) div s) * s)"
proof -
  have "n + s - 1 = (n - 1) + 1 * s" using n by simp
  then have "(n + s - 1) div s = (n - 1) div s + 1" using s by (simp only: div_mult_self1)
  then have m: "(n + s - 1) div s = Suc ((n - 1) div s)" by simp
  show ?thesis by (simp only: slice_step_map [OF s] m) (simp del: upt_Suc add: last_map)
qed

lemma no_step_divides: "filter (\<lambda>s. (12504 :: nat) mod s = 0) [25..<521] = []"
  by (simp add: upt_rec [of _ "numeral _"])

lemma long_axis:
  "hourly_axis input_series 521
   = map (\<lambda>i. 63826272000000000 + int i * us_per_hour) [0..<12505]"
proof -
  have l: "last_time_of input_series = 63871286400000000"
    by (simp add: input_series_def singleton_last_time)
  have w: "window_start input_series 521 = 63826272000000000"
    by (simp add: window_start_def l replace_hour_def us_per_day_def us_per_hour_def)
  have n: "hourly_points input_series 521 = 12505" by (simp add: hourly_points_eq)
  show ?thesis by (simp only: hourly_axis_def w n)
qed

lemma long_axis_last:
  assumes "0 < s"
  shows "last (slice_step s (hourly_axis input_series 521))
         = 63826272000000000 + int ((12504 div s) * s) * us_per_hour"
  using last_slice_step [OF assms, of 12505 "\<lambda>i. 63826272000000000 + int i * us_per_hour"]
  by (simp only: long_axis) simp

lemma long_axis_no_step:
  "filter (\<lambda>step. last (slice_step step (hourly_axis input_series 521))
                     = last_time_of input_series) [25..<521] = []"
proof -
  have l: "last_time_of input_series = 63871286400000000"
    by (simp add: input_series_def singleton_last_time)
  have "\<not> last (slice_step step (hourly_axis input_series 521)) = last_time_of input_series"
    if "step \<in> set [25..<521]" for step
  proof -
    from that have "25 \<le> step" by (simp only: set_upt atLeastLessThan_iff)
    then have p: "0 < step" by simp
    have "(12504 :: nat) mod step \<noteq> 0"
      using no_step_divides that by (simp only: filter_empty_conv) blast
    moreover have "(12504 div step) * step + 12504 mod step = 12504" by (rule div_mult_mod_eq)
    ultimately have lt: "(12504 div step) * step < 12504" by linarith
    define x where "x = int ((12504 div step) * step)"
    have "x < int 12504" unfolding x_def using lt by (simp only: of_nat_less_iff)
    then have x: "x < 12504" by simp
    have "last (slice_step step (hourly_axis input_series 521))
          = 63826272000000000 + x * us_per_hour"
      by (simp only: long_axis_last [OF p] x_def)
    then show ?thesis using x by (simp add: l us_per_hour_def)
  qed
  then show ?thesis by (simp only: filter_empty_conv) blast
qed

text \<open>
  C5 as stated fails, and not by the rounding of the step alone.  With a window of 521
  days there are 12505 hourly points, and the latest bucket, 2025-01-01 00:00, is on the
  hour.  The step of the code is 25; it keeps the indices 0, 25, ..., 12500 and ends four
  hours before the latest bucket.  The least step that fits the 500 columns is 26; it
  keeps 481 points and ends a day before the latest bucket.  By \<open>long_axis_no_step\<close> no
  step from 25 to 520 ends at the latest bucket, since none of them divides 12504.
\<close>

theorem dense_axis_last_bucket_counterexample:
  "axis_times (dense_axis input_series 521) = slice_step 25 (hourly_axis input_series 521)
   \<and> last_time_of input_series = 63871286400000000
   \<and> last_time_of input_series mod us_per_hour = 0
   \<and> last (axis_times (dense_axis input_series 521)) = 63871272000000000
   \<and> last (axis_times (dense_axis input_series 521)) \<noteq> last_time_of input_series
   \<and> length (slice_step 26 (hourly_axis input_series 521)) = 481
   \<and> last (slice_step 26 (hourly_axis input_series 521)) = 63871200000000000"
proof -
  let ?f = "\<lambda>i. 63826272000000000 + int i * us_per_hour"
  have l: "last_time_of input_series = 63871286400000000"
    by (simp add: input_series_def singleton_last_time)
  have a: "last_time_of input_series mod us_per_hour = 0" by (simp add: l us_per_hour_def)
  have s: "stride 12505 = 25" by (simp add: stride_def)
  have "dense_axis input_series 521
        = Axis (fst (resample (map (\<lambda>i. (63871286400000000 - 521 * us_per_day) + int i * us_per_hour)
                                    [0..<nat (24 * 521 + 1)])))
               (map (\<lambda>j. (63871286400000000 - 521 * us_per_day)
                            + int (j * stride (nat (24 * 521 + 1))) * us_per_hour)
                     [0..<(nat (24 * 521 + 1) + stride (nat (24 * 521 + 1)) - 1)
                           div stride (nat (24 * 521 + 1))])"
    unfolding input_series_def by (rule example_axis_any) simp_all
  then have "axis_times (dense_axis input_series 521)
             = map (\<lambda>j. ?f (j * 25)) [0..<(12505 + 25 - 1) div 25]"
    by (simp add: axis_times_def s us_per_day_def del: upt_Suc)
  also have "\<dots> = slice_step 25 (map ?f [0..<12505])"
    by (rule slice_step_map [symmetric]) simp
  finally have k: "axis_times (dense_axis input_series 521)
                   = slice_step 25 (hourly_axis input_series 521)"
    by (simp only: long_axis)
  have l25: "last (slice_step 25 (hourly_axis input_series 521)) = 63871272000000000"
    by (simp add: long_axis_last us_per_hour_def)
  have l26: "last (slice_step 26 (hourly_axis input_series 521)) = 63871200000000000"
    by (simp add: long_axis_last us_per_hour_def)
  have n26: "length (slice_step 26 (hourly_axis input_series 521)) = 481"
    by (simp add: long_axis length_slice_step)
  from l25 have ne: "last (slice_step 25 (hourly_axis input_series 521)) \<noteq> last_time_of input_series"
    by (simp add: l)
  from l a l25 ne l26 n26 show ?thesis unfolding k by (intro conjI refl)
qed

text \<open>
  C4: the resampled series is meant to fit the cap of 500 columns, and does not.  With
  a window of 21 days there are 505 hourly points; the step is \<open>max(1, 505 // 500) = 1\<close>,
  so all 505 are kept.
\<close>

theorem resample_exceeds_cap:
  "length (axis_times (dense_axis cache_read_series 21)) = 505"
proof -
  have s: "stride 505 = 1" by (simp add: stride_def)
  have "dense_axis cache_read_series 21
        = Axis (fst (resample (map (\<lambda>i. (63871286400000000 - 21 * us_per_day) + int i * us_per_hour)
                                    [0..<nat (24 * 21 + 1)])))
               (map (\<lambda>j. (63871286400000000 - 21 * us_per_day)
                            + int (j * stride (nat (24 * 21 + 1))) * us_per_hour)
                     [0..<(nat (24 * 21 + 1) + stride (nat (24 * 21 + 1)) - 1)
                           div stride (nat (24 * 21 + 1))])"
    unfolding cache_read_series_def by (rule example_axis_any) simp_all
  then show ?thesis by (simp add: axis_times_def s del: upt_Suc)
qed

lemma round_half_even_example: "round_half_even (498 / 5) = 100"
proof -
  have "\<lfloor>498 / 5 :: rat\<rfloor> = 99" by (rule floor_unique) simp_all
  then show ?thesis by (simp add: round_half_even_def)
qed

lemma format_fixed_example: "format_fixed (Suc 0) (249 / 25) = u ''10.0''"
proof -
  have "\<bar>249 / 25 :: rat\<bar> * 10 ^ Suc 0 = 498 / 5" by simp
  then have "round_half_even (\<bar>249 / 25 :: rat\<bar> * 10 ^ Suc 0) = 100"
    by (simp only: round_half_even_example)
  then show ?thesis
    unfolding format_fixed_def Let_def by (simp only:) (simp add: zfill_def u_def)
qed

lemma format_y_axis_value_9960: "format_y_axis_value 9960 = u ''10.0 K''"
proof -
  have "(9960 :: rat) / 1000 = 249 / 25" by simp
  then show ?thesis
    unfolding format_y_axis_value_def Let_def
    by (simp only:) (simp add: format_fixed_example rjust_def u_def)
qed

text \<open>
  C8: \<open>format_y_axis_value\<close> is documented to return 5 characters always, and does not.
  From 1,000,000,000 on, the integer part of the millions has four digits or more; and
  a value such as 9,960, whose one-decimal text rounds up to \<open>10.0\<close>, gives six
  characters as well.
\<close>

theorem format_y_axis_value_six_characters:
  "format_y_axis_value 1000000000 = u ''1000 M''
   \<and> length (format_y_axis_value 1000000000) = 6
   \<and> format_y_axis_value 9960 = u ''10.0 K''
   \<and> length (format_y_axis_value 9960) = 6"
proof -
  have "format_y_axis_value 1000000000 = u ''1000 M''"
    by (simp add: format_y_axis_value_def py_int_def str_int_def rjust_def u_def)
  then show ?thesis by (simp add: format_y_axis_value_9960) (simp add: u_def)
qed

text \<open>
  C2: in a chart of type \<open>'all'\<close> a cell of the cache-read band is drawn with two
  glyphs, U+2588 and U+2591, where the chart of type \<open>'cache'\<close> and the legend have the
  single glyph U+2588.  The column is that of 5000 cache-read tokens on a scale from 0
  to 5000 with three rows.
\<close>

theorem cache_read_cell_two_glyphs:
  "scaled 0 5000 3 \<lparr>input_val = 0, output_val = 0, cache_creation_val = 0, cache_read_val = 5000\<rparr>
     = \<lparr>input_val = 0, output_val = 0, cache_creation_val = 0, cache_read_val = 2\<rparr>
   \<and> cell ''all'' 0 \<lparr>input_val = 0, output_val = 0, cache_creation_val = 0, cache_read_val = 2\<rparr>
       = [9608, 9617]
   \<and> length (strip_ansi
         (cell ''all'' 0 \<lparr>input_val = 0, output_val = 0, cache_creation_val = 0, cache_read_val = 2\<rparr>))
       = 2
   \<and> cell ''cache'' 0 \<lparr>input_val = 0, output_val = 0, cache_creation_val = 0, cache_read_val = 2\<rparr>
       = [9608]"
proof -
  have "scaled 0 5000 3 \<lparr>input_val = 0, output_val = 0, cache_creation_val = 0, cache_read_val = 5000\<rparr>
     = \<lparr>input_val = 0, output_val = 0, cache_creation_val = 0, cache_read_val = 2\<rparr>"
    by (simp add: scaled_def scale_height_def py_int_def)
  then show ?thesis by (simp add: cell_def strip_ansi_def)
qed

lemma draw_rows_height_one:
  "draw_rows ct mn mx 1 sb cols (rev [0..1 - 1]) = ([], Some ZeroDivisionError)"
  by simp

lemma height_one_raised:
  assumes "dense_axis ts d = Axis notes K"
  shows "raised_exn (print_stacked_bar_chart ts 1 d ct x) = Some ZeroDivisionError"
  unfolding print_stacked_bar_chart_def
  by (simp only: assms axis.case Let_def split_beta draw_rows_height_one
        fst_conv snd_conv option.case raised_exn_def outcome.case)

lemma y_range_ge_totals:
  assumes "x \<in> set totals" and "y_range totals = (mn, mx)"
  shows "x \<le> mx"
proof -
  have ne: "totals \<noteq> []" using assms(1) by auto
  let ?lo = "round_to_5_multiple (py_min totals) False"
  let ?hi = "round_to_5_multiple (py_max totals) True"
  have x: "x \<le> ?hi" using py_max_ge [OF assms(1)] round_up_ge [of "py_max totals"] by linarith
  have "snd (y_range totals) = (if ?hi = ?lo then ?lo + 5000 else ?hi)"
    using ne by (simp add: y_range_def Let_def)
  then have mx: "mx = (if ?hi = ?lo then ?lo + 5000 else ?hi)"
    by (simp only: assms(2) snd_conv)
  have "?lo \<le> ?hi"
    using y_range_lt [of totals] ne by (simp add: y_range_def Let_def split: if_splits)
  then show ?thesis using x mx by (simp split: if_splits)
qed

lemma scaled_exact: "scaled mn mx h b = scaled_with (\<lambda>x. x) mn mx h b"
  by (simp add: scaled_def scaled_with_def scale_height_def scale_height_with_def)

lemma rounds_within_exact: "rounds_within (\<lambda>x. x)"
  by (simp add: rounds_within_def)

lemma scale_height_with_bounds:
  assumes r: "rounds_within rnd" and v: "0 \<le> v" and d: "mn < mx" and h: "1 \<le> h"
  shows "0 \<le> scale_height_with rnd mn mx h v"
    and "(of_int (scale_height_with rnd mn mx h v) :: rat)
         \<le> of_int v * (of_int (h - 1) / of_int (mx - mn) * (1 + 1 / 2 ^ 53)\<^sup>2)"
proof -
  let ?e = "1 + 1 / 2 ^ 53 :: rat"
  let ?q = "of_int (v - 0) / of_int (mx - mn) :: rat"
  let ?k = "of_int (h - 1) :: rat"
  have k0: "0 \<le> ?k" using h by simp
  have q0: "0 \<le> ?q" using v d by simp
  note rw = r [unfolded rounds_within_def, rule_format]
  have rq: "0 \<le> rnd ?q" "rnd ?q \<le> ?q * ?e"
    using rw [OF q0] by (rule conjunct1, rule conjunct2)
  have p0: "0 \<le> rnd ?q * ?k" using rq(1) k0 by simp
  have rp: "0 \<le> rnd (rnd ?q * ?k)" "rnd (rnd ?q * ?k) \<le> rnd ?q * ?k * ?e"
    using rw [OF p0] by (rule conjunct1, rule conjunct2)
  have fl: "scale_height_with rnd mn mx h v = \<lfloor>rnd (rnd ?q * ?k)\<rfloor>"
    using rp(1) by (simp add: scale_height_with_def py_int_def)
  show "0 \<le> scale_height_with rnd mn mx h v" using rp(1) by (simp add: fl)
  have "(of_int (scale_height_with rnd mn mx h v) :: rat) \<le> rnd (rnd ?q * ?k)"
    by (simp add: fl)
  also have "\<dots> \<le> rnd ?q * ?k * ?e" by (rule rp(2))
  also have "\<dots> \<le> (?q * ?e) * ?k * ?e"
  proof -
    have e0: "0 \<le> ?e" by simp
    have "rnd ?q * ?k \<le> (?q * ?e) * ?k" using rq(2) k0 by (rule mult_right_mono)
    then show ?thesis using e0 by (rule mult_right_mono)
  qed
  also have "\<dots> = of_int v * (?k / of_int (mx - mn) * ?e\<^sup>2)"
    by (simp only: power2_eq_square diff_zero times_divide_eq_left times_divide_eq_right mult.assoc mult.left_commute [of ?e] )
  finally show "(of_int (scale_height_with rnd mn mx h v) :: rat)
         \<le> of_int v * (?k / of_int (mx - mn) * ?e\<^sup>2)" .
qed

lemma scaled_with_nonneg:
  assumes "rounds_within rnd"
    and "0 \<le> input_val b" "0 \<le> output_val b" "0 \<le> cache_creation_val b" "0 \<le> cache_read_val b"
    and "mn < mx" and "1 \<le> h"
  shows "0 \<le> input_val (scaled_with rnd mn mx h b)"
        "0 \<le> output_val (scaled_with rnd mn mx h b)"
        "0 \<le> cache_creation_val (scaled_with rnd mn mx h b)"
        "0 \<le> cache_read_val (scaled_with rnd mn mx h b)"
  using assms by (simp_all add: scaled_with_def scale_height_with_bounds(1))

lemma scaled_with_total:
  assumes r: "rounds_within rnd"
    and nn: "0 \<le> input_val b" "0 \<le> output_val b" "0 \<le> cache_creation_val b"
            "0 \<le> cache_read_val b"
    and d: "mn < mx" and h: "1 \<le> h"
  shows "(of_int (total_of ct (scaled_with rnd mn mx h b)) :: rat)
         \<le> of_int (total_of ct b) * (of_int (h - 1) / of_int (mx - mn) * (1 + 1 / 2 ^ 53)\<^sup>2)"
proof -
  define c :: rat where "c = of_int (h - 1) / of_int (mx - mn) * (1 + 1 / 2 ^ 53)\<^sup>2"
  note b = scale_height_with_bounds(2) [OF r _ d h, folded c_def]
  have ne: "mx \<noteq> mn" using d by simp
  have s: "input_val (scaled_with rnd mn mx h b) = scale_height_with rnd mn mx h (input_val b)"
    "output_val (scaled_with rnd mn mx h b) = scale_height_with rnd mn mx h (output_val b)"
    "cache_creation_val (scaled_with rnd mn mx h b)
       = scale_height_with rnd mn mx h (cache_creation_val b)"
    "cache_read_val (scaled_with rnd mn mx h b) = scale_height_with rnd mn mx h (cache_read_val b)"
    using ne by (simp_all add: scaled_with_def)
  have i: "(of_int (input_val (scaled_with rnd mn mx h b)) :: rat) \<le> of_int (input_val b) * c"
    and out: "(of_int (output_val (scaled_with rnd mn mx h b)) :: rat) \<le> of_int (output_val b) * c"
    and cc: "(of_int (cache_creation_val (scaled_with rnd mn mx h b)) :: rat)
             \<le> of_int (cache_creation_val b) * c"
    and cr: "(of_int (cache_read_val (scaled_with rnd mn mx h b)) :: rat)
             \<le> of_int (cache_read_val b) * c"
    using b [OF nn(1)] b [OF nn(2)] b [OF nn(3)] b [OF nn(4)] by (simp_all only: s)
  have "(of_int (total_of ct (scaled_with rnd mn mx h b)) :: rat) \<le> of_int (total_of ct b) * c"
    using i out cc cr by (simp add: total_of_def distrib_right)
  then show ?thesis by (simp only: c_def)
qed

lemma cell_band:
  assumes "0 \<le> input_val s" "0 \<le> output_val s" "0 \<le> cache_creation_val s"
          "0 \<le> cache_read_val s" "0 \<le> row"
  shows "(bands_at ct s row = [] \<and> cell ct row s = u '' '')
         \<or> (\<exists>c. bands_at ct s row = [c] \<and> cell ct row s = glyph ct c)"
proof -
  consider (io) "ct = ''io''" | (cache) "ct = ''cache''" | (all) "ct \<noteq> ''io''" "ct \<noteq> ''cache''"
    by blast
  then show ?thesis
  proof cases
    case io
    then show ?thesis
      using assms
      by (auto simp: bands_at_def bands_def active_def height_of_def cell_def glyph_def Let_def)
  next
    case cache
    then show ?thesis
      using assms
      by (auto simp: bands_at_def bands_def active_def height_of_def cell_def glyph_def Let_def)
  next
    case all
    then show ?thesis
      using assms
      by (auto simp: bands_at_def bands_def active_def height_of_def cell_def glyph_def Let_def)
  qed
qed

lemma rounding_factor: "((1 + 1 / 2 ^ 53)\<^sup>2 :: rat) \<le> 1 + 1 / 2 ^ 51"
  by (simp add: power2_eq_square)

lemma stacked_bound:
  assumes r: "rounds_within rnd"
    and nn: "0 \<le> input_val b" "0 \<le> output_val b" "0 \<le> cache_creation_val b"
            "0 \<le> cache_read_val b"
    and b: "b \<in> set breakdown_data"
    and yr: "y_range (map (total_of ct) breakdown_data) = (mn, mx)"
    and h: "1 \<le> h" "h \<le> 2 ^ 50"
  shows "mn < mx"
    and "(of_int (total_of ct (scaled_with rnd mn mx h b)) :: rat)
         \<le> of_int mx * (of_int (h - 1) / of_int (mx - mn) * (1 + 1 / 2 ^ 53)\<^sup>2)"
    and "mn = 0 \<Longrightarrow> total_of ct (scaled_with rnd mn mx h b) \<le> h - 1"
proof -
  define c :: rat where "c = of_int (h - 1) / of_int (mx - mn) * (1 + 1 / 2 ^ 53)\<^sup>2"
  show lt: "mn < mx" using y_range_lt [of "map (total_of ct) breakdown_data"] yr by simp
  have c0: "0 \<le> c" using lt h(1) by (simp add: c_def)
  have "total_of ct b \<in> set (map (total_of ct) breakdown_data)" using b by simp
  then have t: "total_of ct b \<le> mx" using yr by (rule y_range_ge_totals)
  then have "(of_int (total_of ct b) :: rat) \<le> of_int mx" by simp
  then have "(of_int (total_of ct b) :: rat) * c \<le> of_int mx * c"
    using c0 by (rule mult_right_mono)
  moreover have "(of_int (total_of ct (scaled_with rnd mn mx h b)) :: rat)
                 \<le> of_int (total_of ct b) * c"
    using scaled_with_total [OF r nn lt h(1), of ct] by (simp only: c_def)
  ultimately have bound: "(of_int (total_of ct (scaled_with rnd mn mx h b)) :: rat) \<le> of_int mx * c"
    by (rule order_trans [rotated])
  then show "(of_int (total_of ct (scaled_with rnd mn mx h b)) :: rat)
             \<le> of_int mx * (of_int (h - 1) / of_int (mx - mn) * (1 + 1 / 2 ^ 53)\<^sup>2)"
    by (simp only: c_def)
  show "total_of ct (scaled_with rnd mn mx h b) \<le> h - 1" if z: "mn = 0"
  proof -
    define k :: rat where "k = of_int (h - 1)"
    have mx0: "(of_int mx :: rat) \<noteq> 0" using lt z by simp
    have k0: "0 \<le> k" and k50: "k \<le> 2 ^ 50"
    proof -
      show "0 \<le> k" using h(1) by (simp add: k_def)
      have "h - 1 \<le> 2 ^ 50" using h(2) by simp
      then have "(of_int (h - 1) :: rat) \<le> of_int (2 ^ 50)" by (simp only: of_int_le_iff)
      then show "k \<le> 2 ^ 50" by (simp add: k_def)
    qed
    have "of_int mx * c = k * (1 + 1 / 2 ^ 53)\<^sup>2"
      using mx0 by (simp add: c_def k_def z)
    also have "\<dots> \<le> k * (1 + 1 / 2 ^ 51)"
      using rounding_factor k0 by (rule mult_left_mono)
    also have "\<dots> = k + k / 2 ^ 51" by (simp add: distrib_left)
    also have "\<dots> \<le> k + 2 ^ 50 / 2 ^ 51"
      using k50 by (simp add: divide_right_mono)
    also have "\<dots> < k + 1" by simp
    finally have "of_int mx * c < k + 1" .
    with bound have "(of_int (total_of ct (scaled_with rnd mn mx h b)) :: rat) < of_int (h - 1 + 1)"
      by (simp add: k_def)
    then have "total_of ct (scaled_with rnd mn mx h b) < h - 1 + 1" by (simp only: of_int_less_iff)
    then show ?thesis by simp
  qed
qed

text \<open>
  C1, as the code has it.  The heights are measured from zero and scaled by
  \<open>(H - 1) / (max - min)\<close>.  When the scale starts at 0, which it does as soon as one
  bucket of the window has a total below 5, an hour without usage for one, the heights
  of the active categories of a column sum to at most \<open>H - 1\<close>, whatever the rounding of
  the two float operations.  For every scale, every row from 0 up lies in the band of
  exactly one active category, whose glyph the cell shows, or in none, and then the
  cell is blank.  The counters are not negative and the chart has between 1 and
  \<open>2\<^sup>5\<^sup>0\<close> rows.
\<close>

theorem stacked_heights_bounded:
  assumes "rounds_within rnd"
    and "0 \<le> input_val b" "0 \<le> output_val b" "0 \<le> cache_creation_val b"
        "0 \<le> cache_read_val b"
    and "b \<in> set breakdown_data"
    and "y_range (map (total_of chart_type) breakdown_data) = (min_value, max_value)"
    and "1 \<le> chart_height" "chart_height \<le> 2 ^ 50"
    and "0 \<le> row"
  shows "(min_value = 0 \<longrightarrow>
            total_of chart_type (scaled_with rnd min_value max_value chart_height b)
              \<le> chart_height - 1)
         \<and> ((bands_at chart_type (scaled_with rnd min_value max_value chart_height b) row = []
               \<and> cell chart_type row (scaled_with rnd min_value max_value chart_height b) = u '' '')
              \<or> (\<exists>c. bands_at chart_type (scaled_with rnd min_value max_value chart_height b) row = [c]
                    \<and> cell chart_type row (scaled_with rnd min_value max_value chart_height b)
                        = glyph chart_type c))"
proof -
  note sb = stacked_bound [OF assms(1-9)]
  note nn = scaled_with_nonneg [OF assms(1-5) sb(1) assms(8)]
  from sb(3) cell_band [OF nn assms(10), of chart_type] show ?thesis by blast
qed

lemma y_range_example: "y_range [0, 5000] = (0, 5000)"
  by (simp add: y_range_def py_max_def py_min_def round_to_5_multiple_def)

theorem stacked_heights_bounded_witness:
  "rounds_within (\<lambda>x. x)
   \<and> \<lparr>input_val = 0, output_val = 0, cache_creation_val = 0, cache_read_val = 5000\<rparr>
       \<in> set [\<lparr>input_val = 0, output_val = 0, cache_creation_val = 0, cache_read_val = 0\<rparr>,
               \<lparr>input_val = 0, output_val = 0, cache_creation_val = 0, cache_read_val = 5000\<rparr>]
   \<and> y_range (map (total_of ''all'')
         [\<lparr>input_val = 0, output_val = 0, cache_creation_val = 0, cache_read_val = 0\<rparr>,
          \<lparr>input_val = 0, output_val = 0, cache_creation_val = 0, cache_read_val = 5000\<rparr>])
       = (0, 5000)
   \<and> total_of ''all''
         (scaled 0 5000 3
            \<lparr>input_val = 0, output_val = 0, cache_creation_val = 0, cache_read_val = 5000\<rparr>)
       \<le> 3 - 1
   \<and> bands_at ''all''
         (scaled 0 5000 3
            \<lparr>input_val = 0, output_val = 0, cache_creation_val = 0, cache_read_val = 5000\<rparr>) 1
       = [Cache_read]"
proof -
  let ?z = "\<lparr>input_val = 0, output_val = 0, cache_creation_val = 0, cache_read_val = 0\<rparr>"
  let ?b = "\<lparr>input_val = 0, output_val = 0, cache_creation_val = 0, cache_read_val = 5000\<rparr>"
  have yr: "y_range (map (total_of ''all'') [?z, ?b]) = (0, 5000)"
    by (simp add: total_of_def y_range_example)
  have mem: "?b \<in> set [?z, ?b]" by simp
  have "0 = (0 :: int) \<longrightarrow>
          total_of ''all'' (scaled_with (\<lambda>x. x) 0 5000 3 ?b) \<le> 3 - 1"
    using stacked_heights_bounded [OF rounds_within_exact _ _ _ _ mem yr, of 3 1] by simp
  then have t: "total_of ''all'' (scaled 0 5000 3 ?b) \<le> 3 - 1"
    by (simp only: scaled_exact)
  have s: "scaled 0 5000 3 ?b
           = \<lparr>input_val = 0, output_val = 0, cache_creation_val = 0, cache_read_val = 2\<rparr>"
    by (simp add: scaled_def scale_height_def py_int_def)
  have bd: "bands_at ''all'' (scaled 0 5000 3 ?b) 1 = [Cache_read]"
    by (simp add: s bands_at_def bands_def active_def height_of_def)
  show ?thesis using rounds_within_exact mem yr t bd by (intro conjI)
qed

lemma funpow_max_same: "(max (c :: int) ^^ n) c = c"
  by (induction n) simp_all

lemma funpow_min_same: "(min (c :: int) ^^ n) c = c"
  by (induction n) simp_all

lemma y_range_constant: "y_range (replicate (Suc n) 10000) = (10000, 15000)"
  by (simp add: y_range_def py_max_def py_min_def funpow_max_same funpow_min_same
        round_to_5_multiple_def)

text \<open>
  C1 as stated fails.  In a chart of 25 hourly buckets with 10000 input tokens each, the
  totals are all 10000, the scale runs from 10000 to 15000, and with 29 rows the input
  band of every column has the height \<open>int(10000 / 5000 * 28) = 56\<close>, twice the
  \<open>H - 1 = 28\<close> rows of the chart, and more than 28 with one row of slack for each of the
  four categories; no float is rounded on the way.
\<close>

theorem stacked_heights_exceed_counterexample:
  "y_range (map (total_of ''all'')
      (replicate 25 \<lparr>input_val = 10000, output_val = 0, cache_creation_val = 0, cache_read_val = 0\<rparr>))
     = (10000, 15000)
   \<and> total_of ''all''
        (scaled 10000 15000 29
           \<lparr>input_val = 10000, output_val = 0, cache_creation_val = 0, cache_read_val = 0\<rparr>)
       = 56
   \<and> \<not> total_of ''all''
          (scaled 10000 15000 29
             \<lparr>input_val = 10000, output_val = 0, cache_creation_val = 0, cache_read_val = 0\<rparr>)
        \<le> (29 - 1) + 4"
proof -
  let ?b = "\<lparr>input_val = 10000, output_val = 0, cache_creation_val = 0, cache_read_val = 0\<rparr>"
  have "map (total_of ''all'') (replicate 25 ?b) = replicate (Suc 24) 10000"
    by (simp add: total_of_def)
  then have yr: "y_range (map (total_of ''all'') (replicate 25 ?b)) = (10000, 15000)"
    by (simp only: y_range_constant)
  have s: "scaled 10000 15000 29 ?b
           = \<lparr>input_val = 56, output_val = 0, cache_creation_val = 0, cache_read_val = 0\<rparr>"
    by (simp add: scaled_def scale_height_def py_int_def)
  have t: "total_of ''all'' (scaled 10000 15000 29 ?b) = 56"
    by (simp add: s total_of_def)
  show ?thesis using yr t by simp
qed

lemma sorted_le_last: "sorted xs \<Longrightarrow> x \<in> set xs \<Longrightarrow> x \<le> last xs"
  by (induction xs) auto

lemma last_sort_Max:
  assumes "xs \<noteq> []"
  shows "last (sort xs) = Max (set (xs :: int list))"
proof -
  have ne: "sort xs \<noteq> []" using assms by (metis length_0_conv length_sort)
  have m: "last (sort xs) \<in> set xs" using last_in_set [OF ne] by simp
  have "\<And>y. y \<in> set xs \<Longrightarrow> y \<le> last (sort xs)"
    using sorted_le_last [of "sort xs"] by simp
  then show ?thesis using m by (intro Max_eqI [symmetric]) simp_all
qed

lemma last_time_of_map_of:
  assumes "map_of ts = map_of ts'"
  shows "last_time_of ts = last_time_of ts'"
proof (cases "ts = []")
  case True
  then have "map_of ts' = Map.empty" using assms by simp
  then have "ts' = []" by (cases ts') (auto simp: fun_eq_iff split: if_splits)
  then show ?thesis using True by simp
next
  case False
  have d: "fst ` set ts = fst ` set ts'" using assms by (metis dom_map_of_conv_image_fst)
  then have ne': "ts' \<noteq> []" using False by auto
  have "last_time_of ts = Max (set (map fst ts))"
    unfolding last_time_of_def using False by (intro last_sort_Max) simp
  also have "\<dots> = Max (set (map fst ts'))" using d by simp
  also have "\<dots> = last_time_of ts'"
    unfolding last_time_of_def using ne' by (intro last_sort_Max [symmetric]) simp
  finally show ?thesis .
qed

lemma empty_map_of:
  assumes "map_of ts = map_of ts'"
  shows "ts = [] \<longleftrightarrow> ts' = []"
proof -
  have "fst ` set ts = fst ` set ts'" using assms by (metis dom_map_of_conv_image_fst)
  then show ?thesis by auto
qed

lemma dense_axis_alt:
  "dense_axis ts d =
     (if ts = [] then Early (u ''No time series data available.'')
      else (case minus_days (last_time_of ts) d of
              Inl e \<Rightarrow> Raises e
            | Inr start_time \<Rightarrow>
                (case hourly (replace_hour start_time) (last_time_of ts) [] of
                   Inl e \<Rightarrow> Raises e
                 | Inr sorted_times \<Rightarrow>
                     if length sorted_times < 2
                     then Early (u ''Not enough data points for chart.'')
                     else (case resample sorted_times of (notes, kept) \<Rightarrow> Axis notes kept))))"
proof (cases "ts = []")
  case True
  then show ?thesis by (simp add: dense_axis_def)
next
  case False
  then have "sort (map fst ts) \<noteq> []" by (metis length_0_conv length_sort length_map)
  then show ?thesis using False
    by (simp add: dense_axis_def Let_def last_time_of_def split: sum.splits)
qed

lemma dense_axis_map_of:
  assumes "map_of ts = map_of ts'"
  shows "dense_axis ts d = dense_axis ts' d"
  by (simp only: dense_axis_alt last_time_of_map_of [OF assms] empty_map_of [OF assms])

lemma breakdown_at_map_of:
  assumes "map_of ts = map_of ts'"
  shows "breakdown_at ts = breakdown_at ts'"
  by (rule ext) (simp only: breakdown_at_def assms)

text \<open>
  C9: the render reads its five arguments and nothing else, no clock, no environment
  and no random source, so it is a function of them; and of the series it reads the
  mapping only.  Two series with the same keys and the same counters under every key,
  in whatever order the dictionary holds them, give the same outcome, line by line and
  code point by code point (hence byte by byte in any encoding), for the same height,
  window, chart type and X-axis flag.
\<close>

theorem render_determined_by_mapping:
  assumes "map_of time_series = map_of time_series'"
  shows "print_stacked_bar_chart time_series height days_back chart_type show_x_axis
         = print_stacked_bar_chart time_series' height days_back chart_type show_x_axis"
  by (simp only: print_stacked_bar_chart_def dense_axis_map_of [OF assms]
        breakdown_at_map_of [OF assms])

theorem render_determined_by_mapping_witness:
  "map_of ([(63871286400000000, [''input'' \<mapsto> 100]),
            (63871290000000000, [''output'' \<mapsto> 7])] :: time_series)
     = map_of [(63871290000000000, [''output'' \<mapsto> 7]), (63871286400000000, [''input'' \<mapsto> 100])]
   \<and> print_stacked_bar_chart
       [(63871286400000000, [''input'' \<mapsto> 100]), (63871290000000000, [''output'' \<mapsto> 7])]
       29 7 ''all'' True
     = print_stacked_bar_chart
       [(63871290000000000, [''output'' \<mapsto> 7]), (63871286400000000, [''input'' \<mapsto> 100])]
       29 7 ''all'' True"
proof -
  have m: "map_of [(63871286400000000 :: int, [''input'' \<mapsto> 100 :: int]),
                   (63871290000000000, [''output'' \<mapsto> 7])]
         = map_of [(63871290000000000, [''output'' \<mapsto> 7]),
                   (63871286400000000, [''input'' \<mapsto> 100])]"
    by (rule ext) simp
  from m render_determined_by_mapping [OF m, of 29 7 "''all''" True] show ?thesis
    by (intro conjI)
qed










end
